theory Spec2Isabelle
  imports Main "HOL-Library.Sublist"
begin

section \<open>Values exchanged with the remote API\<close>

text \<open>
  The collector of \<^verbatim>\<open>VK_Data.py\<close> works on whatever \<^verbatim>\<open>response.json()\<close> returns. Such a
  value is modelled as it is in Python after parsing: \<^verbatim>\<open>None\<close>, a \<^verbatim>\<open>bool\<close>, an \<^verbatim>\<open>int\<close>, a
  \<^verbatim>\<open>str\<close>, a \<^verbatim>\<open>list\<close> or a \<^verbatim>\<open>dict\<close> with string keys. A dict is an association list in
  insertion order in which a lookup takes the first binding of a key. Fractional numbers
  do not occur in the fields the program reads and are left out of the type; a string is
  the list of its code points, each below 256.
\<close>

datatype json =
    JNull
  | JBool bool
  | JInt int
  | JStr string
  | JList "json list"
  | JObj "(string \<times> json) list"

type_synonym dict = "(string \<times> json) list"

text \<open>
  Every exception the program can meet is caught by an \<^verbatim>\<open>except Exception\<close> clause or
  leaves \<^verbatim>\<open>vk_api_request\<close> through its final \<^verbatim>\<open>raise\<close>. The constructors keep the Python
  class for readability; \<open>ApiError\<close> is the \<^verbatim>\<open>Exception("API Error: ...")\<close> of line 25 and
  \<open>RetriesExhausted\<close> the \<^verbatim>\<open>Exception\<close> of line 37.
\<close>

datatype exn =
    KeyError
  | TypeError
  | AttributeError
  | IndexError
  | ValueError
  | HTTPError
  | RequestException
  | ApiError
  | RetriesExhausted

subsection \<open>The Python operations the program applies to such values\<close>

text \<open>Truth value of an object, as \<^verbatim>\<open>if x\<close>, \<^verbatim>\<open>not x\<close>, \<^verbatim>\<open>x and y\<close> test it.\<close>

fun truthy :: "json \<Rightarrow> bool" where
  "truthy JNull = False"
| "truthy (JBool b) = b"
| "truthy (JInt i) = (i \<noteq> 0)"
| "truthy (JStr s) = (s \<noteq> [])"
| "truthy (JList xs) = (xs \<noteq> [])"
| "truthy (JObj d) = (d \<noteq> [])"

text \<open>\<^verbatim>\<open>x == n\<close> for an integer literal \<open>n\<close>: a bool compares as 0 or 1.\<close>

fun py_eq_int :: "json \<Rightarrow> int \<Rightarrow> bool" where
  "py_eq_int (JInt i) n = (i = n)"
| "py_eq_int (JBool b) n = ((if b then 1 else 0) = n)"
| "py_eq_int _ n = False"

text \<open>\<^verbatim>\<open>k in x\<close> for a string \<open>k\<close>: key test on a dict, element test on a list, substring
  test on a string, \<^verbatim>\<open>TypeError\<close> on anything else.\<close>

fun py_contains :: "json \<Rightarrow> string \<Rightarrow> exn + bool" where
  "py_contains (JObj d) k = Inr (map_of d k \<noteq> None)"
| "py_contains (JList xs) k = Inr (JStr k \<in> set xs)"
| "py_contains (JStr s) k = Inr (sublist k s)"
| "py_contains _ k = Inl TypeError"

text \<open>\<^verbatim>\<open>x[k]\<close> for a string \<open>k\<close>: only a dict can be indexed by a string.\<close>

fun py_getitem :: "json \<Rightarrow> string \<Rightarrow> exn + json" where
  "py_getitem (JObj d) k = (case map_of d k of None \<Rightarrow> Inl KeyError | Some v \<Rightarrow> Inr v)"
| "py_getitem _ k = Inl TypeError"

text \<open>\<^verbatim>\<open>x.get(k, default)\<close>: only a dict has the method.\<close>

fun py_get :: "json \<Rightarrow> string \<Rightarrow> json \<Rightarrow> exn + json" where
  "py_get (JObj d) k dflt = Inr (case map_of d k of None \<Rightarrow> dflt | Some v \<Rightarrow> v)"
| "py_get _ k dflt = Inl AttributeError"

text \<open>\<^verbatim>\<open>x[0]\<close>: first element of a list, first character of a string; a dict obtained from
  JSON has no key \<open>0\<close>.\<close>

fun py_first :: "json \<Rightarrow> exn + json" where
  "py_first (JList xs) = (case xs of [] \<Rightarrow> Inl IndexError | x # _ \<Rightarrow> Inr x)"
| "py_first (JStr s) = (case s of [] \<Rightarrow> Inl IndexError | c # _ \<Rightarrow> Inr (JStr [c]))"
| "py_first (JObj d) = Inl KeyError"
| "py_first _ = Inl TypeError"

text \<open>The elements a \<^verbatim>\<open>for\<close> loop or a comprehension runs over: the elements of a list,
  the keys of a dict, the characters of a string.\<close>

fun py_iter :: "json \<Rightarrow> exn + json list" where
  "py_iter (JList xs) = Inr xs"
| "py_iter (JObj d) = Inr (map JStr (remdups (map fst d)))"
| "py_iter (JStr s) = Inr (map (\<lambda>c. JStr [c]) s)"
| "py_iter _ = Inl TypeError"

text \<open>Sequencing of computations that may raise.\<close>

definition exn_bind :: "exn + 'a \<Rightarrow> ('a \<Rightarrow> exn + 'b) \<Rightarrow> exn + 'b" where
  "exn_bind m f = (case m of Inl e \<Rightarrow> Inl e | Inr v \<Rightarrow> f v)"

text \<open>\<^verbatim>\<open>d[k] = v\<close> on a dict: an existing key keeps its place, a new key goes last.\<close>

primrec dict_set :: "string \<Rightarrow> json \<Rightarrow> dict \<Rightarrow> dict" where
  "dict_set k v [] = [(k, v)]"
| "dict_set k v (p # ps) = (if fst p = k then (k, v) # ps else p # dict_set k v ps)"

text \<open>\<^verbatim>\<open>d.get(k, default)\<close> on a value known to be a dict.\<close>

definition dict_get :: "dict \<Rightarrow> string \<Rightarrow> json \<Rightarrow> json" where
  "dict_get d k dflt = (case map_of d k of None \<Rightarrow> dflt | Some v \<Rightarrow> v)"

section \<open>The world the collector acts on\<close>

text \<open>
  One \<^verbatim>\<open>requests.get\<close> is described by the method in the URL and the parameter dict.
\<close>

record request =
  meth :: string
  params :: dict

text \<open>
  What one \<^verbatim>\<open>requests.get\<close>, \<^verbatim>\<open>raise_for_status\<close>, \<^verbatim>\<open>response.json()\<close> sequence yields: an
  \<^verbatim>\<open>HTTPError\<close>, another \<^verbatim>\<open>RequestException\<close> (connection failure, body that is not JSON),
  or the parsed body.
\<close>

datatype http_reply = HttpError | RequestError | Body json

text \<open>
  The records handed to the graph store. \<open>friends_count\<close> and \<open>subscriptions_count\<close> are
  keys that only \<^verbatim>\<open>get_user_data\<close> adds to the dict built by \<^verbatim>\<open>process_profile\<close>.
\<close>

record user_info =
  uid :: json
  screen_name :: json
  name :: string
  sex :: json
  home_town :: json
  is_private :: json
  friends_count :: "json option"
  subscriptions_count :: "json option"

record group_data =
  gid :: json
  group_name :: json
  members_count :: json

datatype db_call =
    CreateUser user_info
  | CreateGroup group_data
  | CreateFriendship json json
  | CreateSubscription json json

text \<open>
  A member of the Python set \<^verbatim>\<open>visited_users\<close>. Set membership goes through \<^verbatim>\<open>hash\<close> and
  \<^verbatim>\<open>==\<close>, under which \<^verbatim>\<open>True\<close> is \<^verbatim>\<open>1\<close> and \<^verbatim>\<open>False\<close> is \<^verbatim>\<open>0\<close>; lists and dicts are
  unhashable.
\<close>

datatype key = KNone | KInt int | KStr string

fun key_of :: "json \<Rightarrow> key option" where
  "key_of JNull = Some KNone"
| "key_of (JBool b) = Some (KInt (if b then 1 else 0))"
| "key_of (JInt i) = Some (KInt i)"
| "key_of (JStr s) = Some (KStr s)"
| "key_of (JList xs) = None"
| "key_of (JObj d) = None"

text \<open>
  The effects of a run, in the order they happen: \<open>calls\<close> has one entry per invocation of
  \<^verbatim>\<open>vk_api_request\<close>, \<open>sent\<close> one entry per \<^verbatim>\<open>requests.get\<close>, \<open>slept\<close> one entry per
  \<^verbatim>\<open>time.sleep\<close>, \<open>db\<close> one entry per call of a \<^verbatim>\<open>create_*\<close> method of the handler;
  \<open>visited\<close> is the set \<^verbatim>\<open>visited_users\<close> shared by the whole recursion.
\<close>

record world =
  calls :: "request list"
  sent :: "request list"
  slept :: "int list"
  db :: "db_call list"
  visited :: "key set"

definition world0 :: world where
  "world0 = \<lparr>calls = [], sent = [], slept = [], db = [], visited = {}\<rparr>"

text \<open>
  The remote side: the reply to a request may depend on the request and on how many
  requests were sent before it.
\<close>

type_synonym network = "nat \<Rightarrow> request \<Rightarrow> http_reply"

section \<open>\<^verbatim>\<open>vk_api_request\<close> (lines 7 to 37)\<close>

definition sentinel :: json where
  "sentinel = JObj [(''is_private'', JBool True)]"

text \<open>Lines 19 to 26: what the body of the \<^verbatim>\<open>try\<close> does with the parsed reply.\<close>

definition read_body :: "json \<Rightarrow> exn + json" where
  "read_body data =
     exn_bind (py_contains data ''error'') (\<lambda>has_error.
       if has_error then
         exn_bind (py_getitem data ''error'') (\<lambda>err.
         exn_bind (py_getitem err ''error_code'') (\<lambda>code.
           if py_eq_int code 30 then Inr sentinel
           else exn_bind (py_getitem err ''error_msg'') (\<lambda>msg. Inl ApiError)))
       else py_getitem data ''response'')"

text \<open>Lines 16 to 32: one pass through the \<^verbatim>\<open>try\<close>.\<close>

fun attempt :: "http_reply \<Rightarrow> exn + json" where
  "attempt HttpError = Inl HTTPError"
| "attempt RequestError = Inl RequestException"
| "attempt (Body data) = read_body data"

text \<open>
  Lines 15 to 37: the \<^verbatim>\<open>for attempt in range(retries)\<close> loop, on the number of passes that
  are left. A pass that raised is followed by \<^verbatim>\<open>time.sleep(delay)\<close>, which itself raises
  \<^verbatim>\<open>ValueError\<close> for a negative delay, outside any \<^verbatim>\<open>try\<close>.
\<close>

fun attempts :: "network \<Rightarrow> request \<Rightarrow> int \<Rightarrow> nat \<Rightarrow> world \<Rightarrow> (exn + json) \<times> world" where
  "attempts net req delay 0 w = (Inl RetriesExhausted, w)"
| "attempts net req delay (Suc n) w =
     (let reply = net (length (sent w)) req;
          w1 = w\<lparr>sent := sent w @ [req]\<rparr>
      in case attempt reply of
           Inr v \<Rightarrow> (Inr v, w1)
         | Inl e \<Rightarrow>
             if delay < 0 then (Inl ValueError, w1)
             else attempts net req delay n (w1\<lparr>slept := slept w1 @ [delay]\<rparr>))"

text \<open>Lines 9 to 13: the credential and the protocol version put into \<^verbatim>\<open>params\<close>.\<close>

definition access_token :: "string \<Rightarrow> bool \<Rightarrow> string option \<Rightarrow> string" where
  "access_token token use_service_token service_token =
     (case service_token of
        Some s \<Rightarrow> if use_service_token \<and> s \<noteq> [] then s else token
      | None \<Rightarrow> token)"

definition prepare :: "string \<Rightarrow> string \<Rightarrow> dict \<Rightarrow> bool \<Rightarrow> string option \<Rightarrow> request" where
  "prepare m token ps use_service_token service_token =
     \<lparr>meth = m,
      params = dict_set ''v'' (JStr ''5.131'')
                 (dict_set ''access_token''
                    (JStr (access_token token use_service_token service_token)) ps)\<rparr>"

definition vk_api_request ::
  "network \<Rightarrow> string \<Rightarrow> string \<Rightarrow> dict \<Rightarrow> int \<Rightarrow> int \<Rightarrow> bool \<Rightarrow> string option \<Rightarrow> world
     \<Rightarrow> (exn + json) \<times> world" where
  "vk_api_request net m token ps retries delay use_service_token service_token w =
     (let req = prepare m token ps use_service_token service_token
      in attempts net req delay (nat retries) (w\<lparr>calls := calls w @ [req]\<rparr>))"

text \<open>The call as every caller in the file writes it: \<^verbatim>\<open>retries=3, delay=2\<close>.\<close>

definition api :: "network \<Rightarrow> string \<Rightarrow> string \<Rightarrow> dict \<Rightarrow> world \<Rightarrow> (exn + json) \<times> world" where
  "api net m token ps w = vk_api_request net m token ps 3 2 False None w"

section \<open>\<^verbatim>\<open>process_profile\<close> (lines 40 to 53)\<close>

text \<open>
  \<^verbatim>\<open>str(x)\<close> and the formatting of \<open>x\<close> in an f-string: the text itself for a string,
  \<^verbatim>\<open>repr(x)\<close> for everything else. A character stands for the code point of its number,
  so the strings of the model are those over the code points below 256.
\<close>

fun digits :: "nat \<Rightarrow> string" where
  "digits n = (if n < 10 then [char_of (48 + n)] else digits (n div 10) @ [char_of (48 + n mod 10)])"

declare digits.simps [simp del]

definition str_int :: "int \<Rightarrow> string" where
  "str_int i = (if i < 0 then CHR ''-'' # digits (nat (- i)) else digits (nat i))"

fun py_join :: "string \<Rightarrow> string list \<Rightarrow> string" where
  "py_join sep [] = []"
| "py_join sep [x] = x"
| "py_join sep (x # y # ys) = x @ sep @ py_join sep (y # ys)"

text \<open>
  \<^verbatim>\<open>repr\<close> of a string: in double quotes when the string has a single quote and no
  double quote, in single quotes otherwise; the backslash and the enclosing quote are
  escaped, tab, newline and carriage return are written \<^verbatim>\<open>\t\<close>, \<^verbatim>\<open>\n\<close>, \<^verbatim>\<open>\r\<close>, and the other
  code points that are not printable (below 32, 127 to 160, 173) as \<^verbatim>\<open>\x\<close> and two
  hexadecimal digits.
\<close>

definition hex_digit :: "nat \<Rightarrow> char" where
  "hex_digit n = (if n < 10 then char_of (48 + n) else char_of (87 + n))"

definition repr_char :: "char \<Rightarrow> char \<Rightarrow> string" where
  "repr_char q c =
     (let n = (of_char c :: nat) in
      if c = CHR 0x5C then [CHR 0x5C, CHR 0x5C]
      else if c = q then [CHR 0x5C, q]
      else if n = 9 then [CHR 0x5C, CHR ''t'']
      else if n = 10 then [CHR 0x5C, CHR ''n'']
      else if n = 13 then [CHR 0x5C, CHR ''r'']
      else if n < 32 \<or> (127 \<le> n \<and> n \<le> 160) \<or> n = 173
        then [CHR 0x5C, CHR ''x'', hex_digit (n div 16), hex_digit (n mod 16)]
      else [c])"

definition repr_str :: "string \<Rightarrow> string" where
  "repr_str s =
     (let q = (if CHR 0x27 \<in> set s \<and> CHR 0x22 \<notin> set s then CHR 0x22 else CHR 0x27)
      in [q] @ concat (map (repr_char q) s) @ [q])"

text \<open>\<^verbatim>\<open>repr\<close> of a parsed value; a dict shows each of its keys once, with the value that a
  lookup gives.\<close>

primrec py_repr :: "json \<Rightarrow> string" where
  "py_repr JNull = ''None''"
| "py_repr (JBool b) = (if b then ''True'' else ''False'')"
| "py_repr (JInt i) = str_int i"
| "py_repr (JStr s) = repr_str s"
| "py_repr (JList xs) = ''['' @ py_join '', '' (map py_repr xs) @ '']''"
| "py_repr (JObj d) =
     ''{'' @ py_join '', ''
              (map (\<lambda>k. repr_str k @ '': '' @
                         (case map_of (map (map_prod id py_repr) d) k of
                            Some r \<Rightarrow> r | None \<Rightarrow> []))
                 (remdups (map fst d)))
       @ ''}''"

definition py_str :: "json \<Rightarrow> string" where
  "py_str x = (case x of JStr s \<Rightarrow> s | _ \<Rightarrow> py_repr x)"

text \<open>\<^verbatim>\<open>s.strip()\<close>: the characters for which \<^verbatim>\<open>str.isspace\<close> holds are removed at both
  ends. Below 256 these are the code points 9 to 13, 28 to 32, 133 and 160.\<close>

definition py_isspace :: "char \<Rightarrow> bool" where
  "py_isspace c =
     (let n = (of_char c :: nat)
      in (9 \<le> n \<and> n \<le> 13) \<or> (28 \<le> n \<and> n \<le> 32) \<or> n = 133 \<or> n = 160)"

definition strip :: "string \<Rightarrow> string" where
  "strip s = rev (dropWhile py_isspace (rev (dropWhile py_isspace s)))"

text \<open>Lines 42 to 44: the home town, or else the title of the city.\<close>

definition pick_home_town :: "json \<Rightarrow> json \<Rightarrow> exn + json" where
  "pick_home_town profile town =
     (if truthy town then Inr town
      else exn_bind (py_contains profile ''city'') (\<lambda>has_city.
        if has_city then
          exn_bind (py_getitem profile ''city'') (\<lambda>city.
          exn_bind (py_contains city ''title'') (\<lambda>has_title.
            if has_title then py_getitem city ''title'' else Inr town))
        else Inr town))"

text \<open>Line 52: \<^verbatim>\<open>'deactivated' in profile or (profile.get('is_closed') and not
  profile.get('can_access_closed'))\<close>, with the value that \<^verbatim>\<open>or\<close> and \<^verbatim>\<open>and\<close> return.\<close>

definition private_flag :: "json \<Rightarrow> exn + json" where
  "private_flag profile =
     exn_bind (py_contains profile ''deactivated'') (\<lambda>deactivated.
       if deactivated then Inr (JBool True)
       else exn_bind (py_get profile ''is_closed'' JNull) (\<lambda>closed.
         if truthy closed then
           exn_bind (py_get profile ''can_access_closed'' JNull) (\<lambda>can_access.
             Inr (JBool (\<not> truthy can_access)))
         else Inr closed))"

definition process_profile :: "json \<Rightarrow> exn + user_info" where
  "process_profile profile =
     exn_bind (py_get profile ''first_name'' (JStr [])) (\<lambda>first_name.
     exn_bind (py_get profile ''last_name'' (JStr [])) (\<lambda>last_name.
     exn_bind (py_get profile ''home_town'' (JStr [])) (\<lambda>town.
     exn_bind (pick_home_town profile town) (\<lambda>home.
     exn_bind (py_getitem profile ''id'') (\<lambda>i.
     exn_bind (py_get profile ''screen_name'' (JStr [])) (\<lambda>sn.
     exn_bind (py_get profile ''sex'' (JInt 0)) (\<lambda>sx.
     exn_bind (private_flag profile) (\<lambda>priv.
       Inr \<lparr>uid = i, screen_name = sn,
            name = strip (py_str first_name @ '' '' @ py_str last_name),
            sex = sx, home_town = home, is_private = priv,
            friends_count = None, subscriptions_count = None\<rparr>))))))))"

text \<open>The two conditions of the specification of the private flag, in its words: the
  record is marked deactivated; a flag of the record is true (not absent, not false).\<close>

definition marked_deactivated :: "json \<Rightarrow> bool" where
  "marked_deactivated profile = (py_contains profile ''deactivated'' = Inr True)"

definition flag_true :: "json \<Rightarrow> string \<Rightarrow> bool" where
  "flag_true profile k = (case py_get profile k JNull of Inr v \<Rightarrow> truthy v | Inl e \<Rightarrow> False)"

text \<open>The error code carried by an error envelope
  \<^verbatim>\<open>{"error": {"error_code": c, ...}}\<close>, if the body is one.\<close>

definition reported_code :: "json \<Rightarrow> int option" where
  "reported_code data =
     (case data of
        JObj d \<Rightarrow>
          (case map_of d ''error'' of
             Some (JObj e) \<Rightarrow> (case map_of e ''error_code'' of Some (JInt c) \<Rightarrow> Some c | _ \<Rightarrow> None)
           | _ \<Rightarrow> None)
      | _ \<Rightarrow> None)"

section \<open>\<^verbatim>\<open>get_user_data\<close> (lines 159 to 276)\<close>

text \<open>\<^verbatim>\<open>len(x)\<close>.\<close>

fun py_len :: "json \<Rightarrow> exn + nat" where
  "py_len (JList xs) = Inr (length xs)"
| "py_len (JObj d) = Inr (length (remdups (map fst d)))"
| "py_len (JStr s) = Inr (length s)"
| "py_len _ = Inl TypeError"

text \<open>\<^verbatim>\<open>xs[:n]\<close>: a negative \<open>n\<close> counts from the end.\<close>

definition py_take :: "int \<Rightarrow> 'a list \<Rightarrow> 'a list" where
  "py_take n xs = (if 0 \<le> n then take (nat n) xs else take (length xs - nat (- n)) xs)"

definition profile_fields :: string where
  "profile_fields = ''screen_name,sex,home_town,city,first_name,last_name''"

definition users_get_params :: "json \<Rightarrow> dict" where
  "users_get_params user_id = [(''user_ids'', user_id), (''fields'', JStr profile_fields)]"

definition friends_get_params :: "json \<Rightarrow> int \<Rightarrow> dict" where
  "friends_get_params user_id friends_limit =
     [(''user_id'', user_id), (''fields'', JStr profile_fields), (''count'', JInt friends_limit)]"

definition subscriptions_params :: "json \<Rightarrow> int \<Rightarrow> dict" where
  "subscriptions_params user_id offset =
     [(''user_id'', user_id), (''extended'', JInt 1), (''offset'', JInt offset),
      (''count'', JInt 200), (''filter'', JStr ''groups'')]"

definition groups_params :: "string list \<Rightarrow> dict" where
  "groups_params chunk =
     [(''group_ids'', JStr (py_join '','' chunk)), (''fields'', JStr ''members_count'')]"

text \<open>Lines 160 to 168: the profile of the user, or the exception that makes
  \<^verbatim>\<open>get_user_data\<close> return at once.\<close>

definition fetch_profile :: "network \<Rightarrow> string \<Rightarrow> json \<Rightarrow> world \<Rightarrow> (exn + user_info) \<times> world" where
  "fetch_profile net token user_id w =
     (case api net ''users.get'' token (users_get_params user_id) w of
        (Inl e, w1) \<Rightarrow> (Inl e, w1)
      | (Inr r, w1) \<Rightarrow> (exn_bind (py_first r) process_profile, w1))"

text \<open>
  Lines 185 to 190: the loop over the friends. The result tells whether the loop ran to
  its end; the writes made before an exception stay.
\<close>

fun store_friends :: "json \<Rightarrow> json list \<Rightarrow> world \<Rightarrow> bool \<times> world" where
  "store_friends me [] w = (True, w)"
| "store_friends me (friend # rest) w =
     (case process_profile friend of
        Inl e \<Rightarrow> (False, w)
      | Inr friend_profile \<Rightarrow>
          if \<not> truthy (is_private friend_profile) then
            store_friends me rest
              (w\<lparr>db := db w @ [CreateUser friend_profile,
                                CreateFriendship me (uid friend_profile)]\<rparr>)
          else store_friends me rest w)"

text \<open>Lines 175 to 196: the friends block; its value is \<^verbatim>\<open>friends_count\<close>.\<close>

definition friends_block ::
  "network \<Rightarrow> string \<Rightarrow> json \<Rightarrow> int \<Rightarrow> user_info \<Rightarrow> world \<Rightarrow> int \<times> world" where
  "friends_block net token user_id friends_limit user_info w =
     (case api net ''friends.get'' token (friends_get_params user_id friends_limit) w of
        (Inl e, w1) \<Rightarrow> (0, w1)
      | (Inr friends, w1) \<Rightarrow>
          (case friends of
             JObj d \<Rightarrow>
               (let friends_list = dict_get d ''items'' (JList [])
                in case py_len friends_list of
                     Inl e \<Rightarrow> (0, w1)
                   | Inr n \<Rightarrow>
                       (case py_iter friends_list of
                          Inl e \<Rightarrow> (0, w1)
                        | Inr fs \<Rightarrow>
                            (case store_friends (uid user_info) fs w1 of
                               (True, w2) \<Rightarrow> (int n, w2)
                             | (False, w2) \<Rightarrow> (0, w2))))
           | _ \<Rightarrow> (0, w1)))"

text \<open>Line 226: the ids of the items that are not closed, as strings.\<close>

fun collect_ids :: "json list \<Rightarrow> exn + string list" where
  "collect_ids [] = Inr []"
| "collect_ids (sub # rest) =
     exn_bind (py_get sub ''is_closed'' (JInt 0)) (\<lambda>closed.
       if py_eq_int closed 0 then
         exn_bind (py_getitem sub ''id'') (\<lambda>i.
         exn_bind (collect_ids rest) (\<lambda>ids. Inr (py_str i # ids)))
       else collect_ids rest)"

text \<open>
  Lines 206 to 230: one pass through the body of \<^verbatim>\<open>while True\<close>. The value is the
  exception raised, or whether the loop is left, with the new values of \<^verbatim>\<open>all_group_ids\<close>
  and \<^verbatim>\<open>subscriptions_count\<close> (here \<open>subs_count\<close>, the name being that of the record field).
\<close>

definition page ::
  "network \<Rightarrow> string \<Rightarrow> json \<Rightarrow> int \<Rightarrow> int \<Rightarrow> string list \<Rightarrow> json \<Rightarrow> world
     \<Rightarrow> (exn + bool \<times> string list \<times> json) \<times> world" where
  "page net token user_id subscriptions_limit offset all_group_ids subs_count w =
     (case api net ''users.getSubscriptions'' token (subscriptions_params user_id offset) w of
        (Inl e, w1) \<Rightarrow> (Inl e, w1)
      | (Inr subscriptions, w1) \<Rightarrow>
          (case subscriptions of
             JObj d \<Rightarrow>
               (let items = dict_get d ''items'' (JList []);
                    total_subscriptions = dict_get d ''count'' (JInt 0)
                in case exn_bind (py_iter items) collect_ids of
                     Inl e \<Rightarrow> (Inl e, w1)
                   | Inr group_ids \<Rightarrow>
                       (case py_len items of
                          Inl e \<Rightarrow> (Inl e, w1)
                        | Inr n \<Rightarrow>
                            (Inr (int n < 200
                                    \<or> subscriptions_limit \<le> int (length (all_group_ids @ group_ids)),
                                  all_group_ids @ group_ids, total_subscriptions), w1)))
           | _ \<Rightarrow> (Inr (True, all_group_ids, subs_count), w1)))"

text \<open>Lines 205 to 232: the loop, which ends only when a pass raises or breaks.\<close>

partial_function (option) paging ::
  "network \<Rightarrow> string \<Rightarrow> json \<Rightarrow> int \<Rightarrow> int \<Rightarrow> string list \<Rightarrow> json \<Rightarrow> world
     \<Rightarrow> ((exn + string list \<times> json) \<times> world) option" where
  "paging net token user_id subscriptions_limit offset all_group_ids subs_count w =
     (case page net token user_id subscriptions_limit offset all_group_ids subs_count w of
        (Inl e, w1) \<Rightarrow> Some (Inl e, w1)
      | (Inr (stop, ids, cnt), w1) \<Rightarrow>
          if stop then Some (Inr (ids, cnt), w1)
          else paging net token user_id subscriptions_limit (offset + 200) ids cnt w1)"

declare paging.simps [code]

text \<open>Line 239: \<^verbatim>\<open>[all_group_ids[i:i + 500] for i in range(0, len(all_group_ids), 500)]\<close>.\<close>

definition group_chunks :: "'a list \<Rightarrow> 'a list list" where
  "group_chunks xs =
     map (\<lambda>k. take 500 (drop (500 * k) xs)) [0 ..< (length xs + 499) div 500]"

text \<open>Lines 255 to 264: the loop over the groups of one reply.\<close>

definition read_group :: "json \<Rightarrow> exn + group_data" where
  "read_group g =
     exn_bind (py_getitem g ''id'') (\<lambda>i.
     exn_bind (py_get g ''name'' (JStr [])) (\<lambda>n.
     exn_bind (py_get g ''members_count'' (JInt 0)) (\<lambda>m.
       Inr \<lparr>gid = i, group_name = n, members_count = m\<rparr>)))"

fun store_groups :: "json \<Rightarrow> json list \<Rightarrow> world \<Rightarrow> exn option \<times> world" where
  "store_groups me [] w = (None, w)"
| "store_groups me (g # gs) w =
     (case read_group g of
        Inl e \<Rightarrow> (Some e, w)
      | Inr group_data \<Rightarrow>
          store_groups me gs
            (w\<lparr>db := db w @ [CreateGroup group_data, CreateSubscription me (gid group_data)]\<rparr>))"

text \<open>Lines 240 to 264: the loop over the chunks, with the service credential. A reply
  that is not a list is skipped (\<^verbatim>\<open>continue\<close>).\<close>

fun resolve_chunks ::
  "network \<Rightarrow> string \<Rightarrow> string \<Rightarrow> json \<Rightarrow> string list list \<Rightarrow> world \<Rightarrow> exn option \<times> world" where
  "resolve_chunks net token service_token me [] w = (None, w)"
| "resolve_chunks net token service_token me (chunk # rest) w =
     (case vk_api_request net ''groups.getById'' token (groups_params chunk) 3 2 True
             (Some service_token) w of
        (Inl e, w1) \<Rightarrow> (Some e, w1)
      | (Inr groups_info, w1) \<Rightarrow>
          (case groups_info of
             JList gs \<Rightarrow>
               (case store_groups me gs w1 of
                  (Some e, w2) \<Rightarrow> (Some e, w2)
                | (None, w2) \<Rightarrow> resolve_chunks net token service_token me rest w2)
           | _ \<Rightarrow> resolve_chunks net token service_token me rest w1))"

text \<open>
  Lines 200 to 264: the body of the \<^verbatim>\<open>try\<close> of the subscriptions block. Its value is the
  exception that ends it, or the final \<^verbatim>\<open>subscriptions_count\<close>; no value at all when the
  paging never ends.
\<close>

definition subscriptions_try ::
  "network \<Rightarrow> string \<Rightarrow> string \<Rightarrow> json \<Rightarrow> int \<Rightarrow> user_info \<Rightarrow> world
     \<Rightarrow> ((exn + json) \<times> world) option" where
  "subscriptions_try net token service_token user_id subscriptions_limit user_info w =
     (case paging net token user_id subscriptions_limit 0 [] (JInt 0) w of
        None \<Rightarrow> None
      | Some (Inl e, w1) \<Rightarrow> Some (Inl e, w1)
      | Some (Inr (ids, cnt), w1) \<Rightarrow>
          (let all_group_ids = py_take subscriptions_limit ids
           in if all_group_ids \<noteq> [] then
                (case resolve_chunks net token service_token (uid user_info)
                        (group_chunks all_group_ids) w1 of
                   (Some e, w2) \<Rightarrow> Some (Inl e, w2)
                 | (None, w2) \<Rightarrow> Some (Inr cnt, w2))
              else Some (Inr cnt, w1)))"

text \<open>Lines 199 to 268: the block with its \<^verbatim>\<open>except\<close> clause, which resets the count to 0.\<close>

definition subscriptions_block ::
  "network \<Rightarrow> string \<Rightarrow> string \<Rightarrow> json \<Rightarrow> int \<Rightarrow> user_info \<Rightarrow> world \<Rightarrow> (json \<times> world) option" where
  "subscriptions_block net token service_token user_id subscriptions_limit user_info w =
     (case subscriptions_try net token service_token user_id subscriptions_limit user_info w of
        None \<Rightarrow> None
      | Some (Inl e, w1) \<Rightarrow> Some (JInt 0, w1)
      | Some (Inr cnt, w1) \<Rightarrow> Some (cnt, w1))"

text \<open>
  The whole function. It returns \<^verbatim>\<open>None\<close> on every path and raises nothing, so its value
  here is the world it leaves, if it returns.
\<close>

definition get_user_data ::
  "network \<Rightarrow> string \<Rightarrow> string \<Rightarrow> json \<Rightarrow> int \<Rightarrow> int \<Rightarrow> world \<Rightarrow> world option" where
  "get_user_data net token service_token user_id friends_limit subscriptions_limit w =
     (case fetch_profile net token user_id w of
        (Inl e, w1) \<Rightarrow> Some w1
      | (Inr user_info, w1) \<Rightarrow>
          (case friends_block net token user_id friends_limit user_info w1 of
             (fc, w2) \<Rightarrow>
               (case subscriptions_block net token service_token user_id subscriptions_limit
                       user_info w2 of
                  None \<Rightarrow> None
                | Some (sc, w3) \<Rightarrow>
                    Some (w3\<lparr>db := db w3 @
                      [CreateUser (user_info\<lparr>friends_count := Some (JInt fc),
                                             subscriptions_count := Some sc\<rparr>)]\<rparr>))))"

section \<open>\<^verbatim>\<open>get_detailed_data\<close> (lines 279 to 311)\<close>

text \<open>
  The function and the loop over the friends of lines 301 to 307 call each other. The
  function raises only where it tests \<^verbatim>\<open>user_id in visited_users\<close> with an unhashable
  id, before any effect; in the loop of the caller this exception reaches the \<^verbatim>\<open>except\<close>
  of line 310, which ends that loop.
\<close>

function get_detailed_data ::
    "network \<Rightarrow> string \<Rightarrow> string \<Rightarrow> json \<Rightarrow> int \<Rightarrow> int \<Rightarrow> int \<Rightarrow> int \<Rightarrow> world
       \<Rightarrow> (exn + world) option"
  and recurse_friends ::
    "network \<Rightarrow> string \<Rightarrow> string \<Rightarrow> json list \<Rightarrow> int \<Rightarrow> int \<Rightarrow> int \<Rightarrow> int \<Rightarrow> world
       \<Rightarrow> world option"
where
  "get_detailed_data net token service_token user_id depth_limit current_depth friends_limit
       subscriptions_limit w =
     (case key_of user_id of
        None \<Rightarrow> Some (Inl TypeError)
      | Some k \<Rightarrow>
          if k \<in> visited w then Some (Inr w)
          else
            (case get_user_data net token service_token user_id friends_limit subscriptions_limit
                    (w\<lparr>visited := insert k (visited w)\<rparr>) of
               None \<Rightarrow> None
             | Some w1 \<Rightarrow>
                 if current_depth < depth_limit then
                   (case api net ''friends.get'' token
                           (friends_get_params user_id friends_limit) w1 of
                      (Inl e, w2) \<Rightarrow> Some (Inr w2)
                    | (Inr friends, w2) \<Rightarrow>
                        (case friends of
                           JObj d \<Rightarrow>
                             (case py_iter (dict_get d ''items'' (JList [])) of
                                Inl e \<Rightarrow> Some (Inr w2)
                              | Inr fs \<Rightarrow>
                                  (case recurse_friends net token service_token fs depth_limit
                                          current_depth friends_limit subscriptions_limit w2 of
                                     None \<Rightarrow> None
                                   | Some w3 \<Rightarrow> Some (Inr w3)))
                         | _ \<Rightarrow> Some (Inr w2)))
                 else Some (Inr w1)))"
| "recurse_friends net token service_token [] depth_limit current_depth friends_limit
       subscriptions_limit w = Some w"
| "recurse_friends net token service_token (friend # rest) depth_limit current_depth friends_limit
       subscriptions_limit w =
     (case process_profile friend of
        Inl e \<Rightarrow> Some w
      | Inr friend_profile \<Rightarrow>
          if \<not> truthy (is_private friend_profile) then
            (case get_detailed_data net token service_token (uid friend_profile) depth_limit
                    (current_depth + 1) friends_limit subscriptions_limit w of
               None \<Rightarrow> None
             | Some (Inl e) \<Rightarrow> Some w
             | Some (Inr w1) \<Rightarrow>
                 recurse_friends net token service_token rest depth_limit current_depth
                   friends_limit subscriptions_limit w1)
          else recurse_friends net token service_token rest depth_limit current_depth
                 friends_limit subscriptions_limit w)"
  by pat_completeness auto

termination
  by (relation "measures
        [\<lambda>x. case x of
           Inl (net, token, service_token, user_id, depth_limit, current_depth, r) \<Rightarrow>
             2 * nat (depth_limit - current_depth)
         | Inr (net, token, service_token, fs, depth_limit, current_depth, r) \<Rightarrow>
             2 * nat (depth_limit - (current_depth + 1)) + 1,
         \<lambda>x. case x of
           Inl r \<Rightarrow> 0
         | Inr (net, token, service_token, fs, r) \<Rightarrow> length fs]") auto

declare get_detailed_data.simps [simp del]

text \<open>
  Lines 291 to 311 on their own: what \<^verbatim>\<open>get_detailed_data\<close> does below the depth limit
  once \<^verbatim>\<open>get_user_data\<close> has returned.
\<close>

definition expand_friends ::
  "network \<Rightarrow> string \<Rightarrow> string \<Rightarrow> json \<Rightarrow> int \<Rightarrow> int \<Rightarrow> int \<Rightarrow> int \<Rightarrow> world
     \<Rightarrow> (exn + world) option" where
  "expand_friends net token service_token user_id depth_limit current_depth friends_limit
       subscriptions_limit w1 =
     (case api net ''friends.get'' token (friends_get_params user_id friends_limit) w1 of
        (Inl e, w2) \<Rightarrow> Some (Inr w2)
      | (Inr friends, w2) \<Rightarrow>
          (case friends of
             JObj d \<Rightarrow>
               (case py_iter (dict_get d ''items'' (JList [])) of
                  Inl e \<Rightarrow> Some (Inr w2)
                | Inr fs \<Rightarrow>
                    (case recurse_friends net token service_token fs depth_limit
                            current_depth friends_limit subscriptions_limit w2 of
                       None \<Rightarrow> None
                     | Some w3 \<Rightarrow> Some (Inr w3)))
           | _ \<Rightarrow> Some (Inr w2)))"

section \<open>The graph store (lines 56 to 147)\<close>

text \<open>
  The handler sends four Cypher statements. None of its \<^verbatim>\<open>create_*\<close> methods returns a
  value or lets an exception out, so the collector runs the same way whatever the store
  does, and the store can be described apart, as the effect of the recorded calls on a
  graph. The description is that of Cypher for the parameter values the database accepts
  as properties (numbers, strings, booleans): \<^verbatim>\<open>MERGE (u:User {id: $id}) SET ...\<close> creates
  the node if no node has the id and overwrites the listed properties;
  \<^verbatim>\<open>MATCH (u1:User {id: $a}), (u2:User {id: $b}) MERGE (u1)-[:FRIEND]->(u2)\<close> yields no row,
  and so writes nothing, unless both nodes exist.
\<close>

record user_node =
  node_screen_name :: json
  node_name :: string
  node_sex :: json
  node_home_town :: json
  node_friends_count :: json
  node_subscriptions_count :: json

record group_node =
  node_group_name :: json
  node_members_count :: json

record graph =
  user_nodes :: "(json \<times> user_node) list"
  group_nodes :: "(json \<times> group_node) list"
  friend_edges :: "(json \<times> json) list"
  subscribed_edges :: "(json \<times> json) list"

definition empty_graph :: graph where
  "empty_graph = \<lparr>user_nodes = [], group_nodes = [], friend_edges = [], subscribed_edges = []\<rparr>"

primrec merge_node :: "json \<Rightarrow> 'a \<Rightarrow> (json \<times> 'a) list \<Rightarrow> (json \<times> 'a) list" where
  "merge_node i v [] = [(i, v)]"
| "merge_node i v (p # ps) = (if fst p = i then (i, v) # ps else p # merge_node i v ps)"

definition merge_edge :: "json \<times> json \<Rightarrow> (json \<times> json) list \<Rightarrow> (json \<times> json) list" where
  "merge_edge e es = (if e \<in> set es then es else es @ [e])"

text \<open>Lines 84 to 90: the parameters of the user statement; a missing count is 0.\<close>

definition user_node_of :: "user_info \<Rightarrow> user_node" where
  "user_node_of u =
     \<lparr>node_screen_name = screen_name u, node_name = name u, node_sex = sex u,
      node_home_town = home_town u,
      node_friends_count = (case friends_count u of None \<Rightarrow> JInt 0 | Some c \<Rightarrow> c),
      node_subscriptions_count = (case subscriptions_count u of None \<Rightarrow> JInt 0 | Some c \<Rightarrow> c)\<rparr>"

fun run_db_call :: "db_call \<Rightarrow> graph \<Rightarrow> graph" where
  "run_db_call (CreateUser u) g =
     g\<lparr>user_nodes := merge_node (uid u) (user_node_of u) (user_nodes g)\<rparr>"
| "run_db_call (CreateGroup gd) g =
     g\<lparr>group_nodes :=
         merge_node (gid gd)
           \<lparr>node_group_name = group_name gd, node_members_count = members_count gd\<rparr>
           (group_nodes g)\<rparr>"
| "run_db_call (CreateFriendship a b) g =
     (if a \<in> fst ` set (user_nodes g) \<and> b \<in> fst ` set (user_nodes g)
      then g\<lparr>friend_edges := merge_edge (a, b) (friend_edges g)\<rparr> else g)"
| "run_db_call (CreateSubscription a b) g =
     (if a \<in> fst ` set (user_nodes g) \<and> b \<in> fst ` set (group_nodes g)
      then g\<lparr>subscribed_edges := merge_edge (a, b) (subscribed_edges g)\<rparr> else g)"

text \<open>The graph after the recorded calls, in their order.\<close>

definition graph_after :: "db_call list \<Rightarrow> graph \<Rightarrow> graph" where
  "graph_after cs g = fold run_db_call cs g"

section \<open>What a run has received and requested\<close>

text \<open>
  The reply to the \<open>i\<close>-th request is fixed by the remote side, so the history of a run
  can be read off the requests it sent. \<open>parsed_pages net i rs\<close> are the subscription pages
  that the requests \<open>rs\<close>, sent as the requests number \<open>i, i + 1, ...\<close>, brought back: the
  replies to \<^verbatim>\<open>users.getSubscriptions\<close> that \<^verbatim>\<open>vk_api_request\<close> returned and that are dicts,
  in the order of arrival.
\<close>

definition page_of :: "request \<Rightarrow> exn + json \<Rightarrow> dict list" where
  "page_of r res =
     (case res of
        Inr (JObj d) \<Rightarrow> if meth r = ''users.getSubscriptions'' then [d] else []
      | _ \<Rightarrow> [])"

fun parsed_pages :: "network \<Rightarrow> nat \<Rightarrow> request list \<Rightarrow> dict list" where
  "parsed_pages net i [] = []"
| "parsed_pages net i (r # rs) = page_of r (attempt (net i r)) @ parsed_pages net (Suc i) rs"

text \<open>The \<open>count\<close> field of the last of some pages (0 when the page has none, line 222), or
  \<open>cnt\<close> when there is no page.\<close>

definition last_reported :: "json \<Rightarrow> dict list \<Rightarrow> json" where
  "last_reported cnt ps = (if ps = [] then cnt else dict_get (last ps) ''count'' (JInt 0))"

text \<open>
  Every invocation of \<^verbatim>\<open>get_user_data\<close> starts with one \<^verbatim>\<open>users.get\<close> call for its user id,
  and no other place makes such a call: \<open>profile_fetches k w\<close> counts the invocations for
  the ids that are the member \<open>k\<close> of \<^verbatim>\<open>visited_users\<close>. The friend list of a user is
  requested in two places, by \<^verbatim>\<open>get_user_data\<close> to store the friends (line 177) and by
  \<^verbatim>\<open>get_detailed_data\<close> to recurse into them (line 294), with the same request.
\<close>

definition asks_about :: "string \<Rightarrow> string \<Rightarrow> key \<Rightarrow> request \<Rightarrow> bool" where
  "asks_about m p k r =
     (meth r = m \<and> (case map_of (params r) p of Some v \<Rightarrow> key_of v = Some k | None \<Rightarrow> False))"

definition profile_fetches :: "key \<Rightarrow> world \<Rightarrow> nat" where
  "profile_fetches k w = length (filter (asks_about ''users.get'' ''user_ids'' k) (calls w))"

definition friend_list_fetches :: "key \<Rightarrow> world \<Rightarrow> nat" where
  "friend_list_fetches k w = length (filter (asks_about ''friends.get'' ''user_id'' k) (calls w))"

text \<open>
  The state of a run in which no user was handled twice: an id that is not in the visited
  set was never asked about, the profile of an id in the set was fetched at most once, and
  its friend list at most once in each of the two places.
\<close>

definition each_user_once :: "world \<Rightarrow> bool" where
  "each_user_once w =
     (\<forall>k. profile_fetches k w \<le> (if k \<in> visited w then 1 else 0)
        \<and> friend_list_fetches k w \<le> (if k \<in> visited w then 2 else 0))"

section \<open>Remote sides used in the scenarios\<close>

text \<open>A success envelope \<^verbatim>\<open>{"response": v}\<close>.\<close>

definition response :: "json \<Rightarrow> http_reply" where
  "response v = Body (JObj [(''response'', v)])"

text \<open>
  A subscriptions listing of \<open>total\<close> groups with the ids \<open>0, ..., total - 1\<close>, none of them
  closed, served in pages of 200 from the requested offset, each page with the total in
  its \<open>count\<close> field.
\<close>

definition public_item :: "nat \<Rightarrow> json" where
  "public_item k = JObj [(''id'', JInt (int k)), (''is_closed'', JInt 0)]"

definition listing_page :: "nat \<Rightarrow> nat \<Rightarrow> json" where
  "listing_page tot off =
     JObj [(''count'', JInt (int tot)),
           (''items'', JList (map public_item [off ..< min tot (off + 200)]))]"

definition listing_server :: "nat \<Rightarrow> network" where
  "listing_server tot i r =
     (if meth r = ''users.getSubscriptions'' then
        (case map_of (params r) ''offset'' of
           Some (JInt off) \<Rightarrow> response (listing_page tot (nat off))
         | _ \<Rightarrow> RequestError)
      else RequestError)"

text \<open>The ids of the items \<open>a, ..., b - 1\<close> of such a listing, as the strings of line 226.\<close>

definition item_ids :: "nat \<Rightarrow> nat \<Rightarrow> string list" where
  "item_ids a b = map (\<lambda>k. str_int (int k)) [a ..< b]"

text \<open>The offsets of the subscription pages requested so far.\<close>

definition requested_offsets :: "world \<Rightarrow> json option list" where
  "requested_offsets w =
     map (\<lambda>r. map_of (params r) ''offset'')
       (filter (\<lambda>r. meth r = ''users.getSubscriptions'') (calls w))"

text \<open>
  A small social network: every account exists and has no subscriptions, \<open>friends_of u\<close>
  is the friend list of the account with the numeric id \<open>u\<close>, and a start id given as a
  string (an id typed at the prompt of \<^verbatim>\<open>main\<close>, or a screen name) resolves to account 1.
\<close>

definition open_profile :: "int \<Rightarrow> json" where
  "open_profile u =
     JObj [(''id'', JInt u), (''is_closed'', JBool False), (''can_access_closed'', JBool True)]"

definition closed_profile :: "int \<Rightarrow> json" where
  "closed_profile u =
     JObj [(''id'', JInt u), (''is_closed'', JBool True), (''can_access_closed'', JBool False)]"

definition account_of :: "json option \<Rightarrow> int" where
  "account_of v = (case v of Some (JInt u) \<Rightarrow> u | _ \<Rightarrow> 1)"

definition social_server :: "(int \<Rightarrow> json list) \<Rightarrow> network" where
  "social_server friends_of i r =
     (if meth r = ''users.get'' then
        response (JList [open_profile (account_of (map_of (params r) ''user_ids''))])
      else if meth r = ''friends.get'' then
        response (JObj [(''count'', JInt (int (length (friends_of (account_of (map_of (params r) ''user_id'')))))),
                        (''items'', JList (friends_of (account_of (map_of (params r) ''user_id''))))])
      else if meth r = ''users.getSubscriptions'' then
        response (JObj [(''count'', JInt 0), (''items'', JList [])])
      else response (JList []))"

text \<open>The same network, in which every account has the subscriptions listing of \<open>tot\<close>
  groups described above.\<close>

definition subscriber_server :: "nat \<Rightarrow> (int \<Rightarrow> json list) \<Rightarrow> network" where
  "subscriber_server tot friends_of i r =
     (if meth r = ''users.getSubscriptions'' then listing_server tot i r
      else social_server friends_of i r)"

text \<open>A remote side on which every request for the profile of account \<open>u\<close> fails, and
  which otherwise answers as \<open>net\<close>.\<close>

definition profile_outage :: "int \<Rightarrow> network \<Rightarrow> network" where
  "profile_outage u net i r =
     (if meth r = ''users.get'' \<and> account_of (map_of (params r) ''user_ids'') = u
      then RequestError else net i r)"

text \<open>The world at the end of a run that returned.\<close>

definition final_world :: "(exn + world) option \<Rightarrow> world option" where
  "final_world r = (case r of Some (Inr w) \<Rightarrow> Some w | _ \<Rightarrow> None)"

text \<open>The graph that a run started on the wiped store of \<^verbatim>\<open>main\<close> (line 407) leaves.\<close>

definition graph_of_run :: "(exn + world) option \<Rightarrow> graph option" where
  "graph_of_run r =
     (case r of Some (Inr w) \<Rightarrow> Some (graph_after (db w) empty_graph) | _ \<Rightarrow> None)"

text \<open>Two friend lists for it: account 1 with the friends 2, 3 and 4, of whom 3 is closed to
  the caller; and account 1 with the friends 2 and 4, who have friends of their own.\<close>

definition three_friends :: "int \<Rightarrow> json list" where
  "three_friends u =
     (if u = 1 then [open_profile 2, closed_profile 3, open_profile 4] else [])"

definition two_levels :: "int \<Rightarrow> json list" where
  "two_levels u =
     (if u = 1 then [open_profile 2, open_profile 4]
      else if u = 2 then [open_profile 1, open_profile 12]
      else if u = 4 then [open_profile 1, open_profile 14]
      else [])"

text \<open>A friendship cycle: the accounts 1 and 2 are friends of each other.\<close>

definition mutual_pair :: "int \<Rightarrow> json list" where
  "mutual_pair u =
     (if u = 1 then [open_profile 2] else if u = 2 then [open_profile 1] else [])"

text \<open>The request for the \<open>i\<close>-th page of the subscriptions of a user, at offset \<open>200 i\<close>,
  and the lookup request for a chunk of group ids as it is when it carries the service
  token.\<close>

definition sub_request :: "string \<Rightarrow> json \<Rightarrow> nat \<Rightarrow> request" where
  "sub_request token user_id i =
     prepare ''users.getSubscriptions'' token (subscriptions_params user_id (int (200 * i)))
       False None"

definition groups_request :: "string \<Rightarrow> string list \<Rightarrow> request" where
  "groups_request service_token chunk =
     \<lparr>meth = ''groups.getById'',
      params = [(''group_ids'', JStr (py_join '','' chunk)), (''fields'', JStr ''members_count''),
                (''access_token'', JStr service_token), (''v'', JStr ''5.131'')]\<rparr>"

text \<open>A remote side on which every group lookup fails, and which otherwise answers as
  \<open>net\<close>.\<close>

definition lookup_outage :: "network \<Rightarrow> network" where
  "lookup_outage net i r = (if meth r = ''groups.getById'' then RequestError else net i r)"

text \<open>The accounts whose profile a run has fetched, in the order of the fetches, and the
  subscription counts in the user statements sent for the id \<open>i\<close>, in the order of the
  writes (\<open>None\<close> where the statement falls back on 0, line 90).\<close>

definition fetched_accounts :: "world \<Rightarrow> int list" where
  "fetched_accounts w =
     map (\<lambda>r. account_of (map_of (params r) ''user_ids''))
       (filter (\<lambda>r. meth r = ''users.get'') (calls w))"

fun user_write :: "db_call \<Rightarrow> user_info list" where
  "user_write (CreateUser u) = [u]"
| "user_write _ = []"

definition count_writes :: "json \<Rightarrow> world \<Rightarrow> json option list" where
  "count_writes i w =
     map subscriptions_count (filter (\<lambda>u. uid u = i) (concat (map user_write (db w))))"

text \<open>The ids whose profile a run has requested, in the order of the requests; the group
  lookups among its calls; the \<open>count\<close> fields of the subscriptions pages it has received, in
  the order of arrival; and the subscriptions count on the node of the id \<open>i\<close> in a graph.\<close>

definition requested_profiles :: "world \<Rightarrow> json option list" where
  "requested_profiles w =
     map (\<lambda>r. map_of (params r) ''user_ids'') (filter (\<lambda>r. meth r = ''users.get'') (calls w))"

definition lookup_calls :: "world \<Rightarrow> request list" where
  "lookup_calls w = filter (\<lambda>r. meth r = ''groups.getById'') (calls w)"

definition reported_counts :: "network \<Rightarrow> world \<Rightarrow> json list" where
  "reported_counts net w =
     map (\<lambda>d. dict_get d ''count'' (JInt 0)) (parsed_pages net 0 (sent w))"

definition stored_count :: "json \<Rightarrow> graph \<Rightarrow> json option" where
  "stored_count i g = map_option node_subscriptions_count (map_of (user_nodes g) i)"

section \<open>Properties of the API client\<close>

lemma exn_bind_Inr_iff:
  "(exn_bind m f = Inr y) = (\<exists>v. m = Inr v \<and> f v = Inr y)"
  by (cases m) (simp_all add: exn_bind_def)

text \<open>When every pass fails, the loop makes all its passes and sleeps after each of them.\<close>

lemma attempts_all_fail:
  assumes "\<And>i. \<exists>e. attempt (net i req) = Inl e" "0 \<le> delay"
  shows "attempts net req delay n w =
     (Inl RetriesExhausted,
      w\<lparr>sent := sent w @ replicate n req, slept := slept w @ replicate n delay\<rparr>)"
  using assms
proof (induction n arbitrary: w)
  case 0
  then show ?case by simp
next
  case (Suc n)
  obtain e where e: "attempt (net (length (sent w)) req) = Inl e"
    using Suc.prems(1) by blast
  show ?case
    using Suc.prems e by (simp add: Let_def Suc.IH replicate_app_Cons_same)
qed

text \<open>
  C3. A call of \<^verbatim>\<open>vk_api_request\<close> whose every attempt fails, with the default budget of
  3 and the default delay of 2: it sends the request 3 times and ends with the final
  \<^verbatim>\<open>raise\<close>, but \<^verbatim>\<open>time.sleep(delay)\<close> runs after each of the three failed attempts, also
  after the last one, where no attempt follows. The specification has two sleeps, between the
  attempts only; the code has three.
\<close>

theorem retry_exhaustion_sleeps_after_last_attempt:
  "vk_api_request (\<lambda>i r. RequestError) ''users.get'' ''t'' [] 3 2 False None world0 =
     (Inl RetriesExhausted,
      world0\<lparr>calls := [prepare ''users.get'' ''t'' [] False None],
             sent := replicate 3 (prepare ''users.get'' ''t'' [] False None),
             slept := [2, 2, 2]\<rparr>)"
  by (simp add: vk_api_request_def world0_def Let_def numeral_3_eq_3)

lemma read_body_code_30:
  assumes "reported_code data = Some 30"
  shows "read_body data = Inr sentinel"
  using assms
  by (auto simp: reported_code_def read_body_def exn_bind_def split: json.splits option.splits)

lemma read_body_code_other:
  assumes "reported_code data = Some c" "c \<noteq> 30"
  shows "\<exists>e. read_body data = Inl e"
  using assms
  by (auto simp: reported_code_def read_body_def exn_bind_def split: json.splits option.splits)

lemma attempts_skip_failures:
  assumes "\<And>i. i < k \<Longrightarrow> \<exists>e. attempt (net (length (sent w) + i) req) = Inl e" and "0 \<le> delay"
  shows "attempts net req delay (k + n) w =
         attempts net req delay n
           (w\<lparr>sent := sent w @ replicate k req, slept := slept w @ replicate k delay\<rparr>)"
  using assms
proof (induction k arbitrary: w)
  case 0
  then show ?case by simp
next
  case (Suc k)
  obtain e where e: "attempt (net (length (sent w)) req) = Inl e"
    using Suc.prems(1)[of 0] by auto
  let ?w1 = "w\<lparr>sent := sent w @ [req], slept := slept w @ [delay]\<rparr>"
  have "\<And>i. i < k \<Longrightarrow> \<exists>e. attempt (net (length (sent ?w1) + i) req) = Inl e"
    using Suc.prems(1)[of "Suc i" for i] by simp
  from Suc.IH[OF this Suc.prems(2)]
  have "attempts net req delay (k + n) ?w1 =
        attempts net req delay n
          (?w1\<lparr>sent := sent ?w1 @ replicate k req, slept := slept ?w1 @ replicate k delay\<rparr>)" .
  then show ?case
    using e Suc.prems(2) by (simp add: Let_def replicate_app_Cons_same)
qed

text \<open>
  C9. A call of \<^verbatim>\<open>vk_api_request\<close> with a budget of \<open>retries\<close> attempts, of which the first
  \<open>k\<close> fail (\<open>k\<close> may be 0) and the next one, still within the budget, is answered with an
  error envelope of code \<open>c\<close>. For \<open>c = 30\<close> the call returns the value
  \<^verbatim>\<open>{'is_private': True}\<close> on that attempt: it raises nothing, sleeps no more and sends
  nothing more. For every other code (the non-zero ones among them) the attempt counts as
  failed like the ones before it: the delay is slept and the call goes on with the attempts
  that are left of the budget, and raises when none is left.
\<close>

theorem error_code_30_is_a_result_other_codes_are_retried:
  assumes "\<And>i. i < k \<Longrightarrow>
             \<exists>e. attempt (net (length (sent w) + i) (prepare m token ps u s)) = Inl e"
      and "int k < retries" and "0 \<le> delay"
      and "net (length (sent w) + k) (prepare m token ps u s) = Body data"
      and "reported_code data = Some c"
  shows "(c = 30 \<longrightarrow>
            vk_api_request net m token ps retries delay u s w =
              (Inr sentinel,
               w\<lparr>calls := calls w @ [prepare m token ps u s],
                 sent := sent w @ replicate (Suc k) (prepare m token ps u s),
                 slept := slept w @ replicate k delay\<rparr>))
       \<and> (c \<noteq> 30 \<longrightarrow>
            vk_api_request net m token ps retries delay u s w =
              attempts net (prepare m token ps u s) delay (nat retries - Suc k)
                (w\<lparr>calls := calls w @ [prepare m token ps u s],
                  sent := sent w @ replicate (Suc k) (prepare m token ps u s),
                  slept := slept w @ replicate (Suc k) delay\<rparr>))
       \<and> (c \<noteq> 30 \<and> retries = int (Suc k) \<longrightarrow>
            vk_api_request net m token ps retries delay u s w =
              (Inl RetriesExhausted,
               w\<lparr>calls := calls w @ [prepare m token ps u s],
                 sent := sent w @ replicate (Suc k) (prepare m token ps u s),
                 slept := slept w @ replicate (Suc k) delay\<rparr>))"
proof -
  let ?req = "prepare m token ps u s"
  let ?w0 = "w\<lparr>calls := calls w @ [?req]\<rparr>"
  let ?wk = "?w0\<lparr>sent := sent ?w0 @ replicate k ?req, slept := slept ?w0 @ replicate k delay\<rparr>"
  have "k < nat retries" using assms(2) by linarith
  then obtain n where "nat retries = Suc (k + n)"
    using less_imp_Suc_add by blast
  then have n: "nat retries = k + Suc n" by simp
  have fails: "\<And>i. i < k \<Longrightarrow> \<exists>e. attempt (net (length (sent ?w0) + i) ?req) = Inl e"
    using assms(1) by simp
  have start: "vk_api_request net m token ps retries delay u s w =
               attempts net ?req delay (Suc n) ?wk"
    unfolding vk_api_request_def Let_def n
    by (rule attempts_skip_failures[where k = k and net = net and w = ?w0 and req = ?req
          and delay = delay and n = "Suc n"]) (use fails assms(3) in auto)
  have reply: "net (length (sent ?wk)) ?req = Body data"
    using assms(4) by simp
  have rest: "nat retries - Suc k = n" using n by simp
  have last: "retries = int (Suc k) \<Longrightarrow> n = 0" using n by simp
  show ?thesis
  proof (cases "c = 30")
    case True
    have "attempt (net (length (sent ?wk)) ?req) = Inr sentinel"
      using reply read_body_code_30[of data] assms(5) True by simp
    then show ?thesis
      using True by (simp add: start Let_def replicate_append_same)
  next
    case False
    from read_body_code_other[OF assms(5) False] obtain e where "read_body data = Inl e"
      by blast
    then have "attempt (net (length (sent ?wk)) ?req) = Inl e"
      using reply by simp
    then have step: "attempts net ?req delay (Suc n) ?wk =
          attempts net ?req delay n
            (w\<lparr>calls := calls w @ [?req],
               sent := sent w @ replicate (Suc k) ?req,
               slept := slept w @ replicate (Suc k) delay\<rparr>)"
      using assms(3) by (simp add: Let_def replicate_append_same)
    have "n = 0 \<Longrightarrow> attempts net ?req delay n
            (w\<lparr>calls := calls w @ [?req],
               sent := sent w @ replicate (Suc k) ?req,
               slept := slept w @ replicate (Suc k) delay\<rparr>) =
           (Inl RetriesExhausted,
            w\<lparr>calls := calls w @ [?req],
               sent := sent w @ replicate (Suc k) ?req,
               slept := slept w @ replicate (Suc k) delay\<rparr>)"
      by simp
    then show ?thesis
      using False last unfolding start step rest by blast
  qed
qed

theorem error_code_30_is_a_result_other_codes_are_retried_witness:
  "vk_api_request
     (\<lambda>i r. if i = 0 then RequestError
             else Body (JObj [(''error'', JObj [(''error_code'', JInt 30)])]))
     ''friends.get'' ''t'' [] 3 2 False None world0
     = (Inr sentinel,
        world0\<lparr>calls := [prepare ''friends.get'' ''t'' [] False None],
               sent := replicate 2 (prepare ''friends.get'' ''t'' [] False None),
               slept := [2]\<rparr>)
   \<and> vk_api_request
       (\<lambda>i r. if i = 0 then Body (JObj [(''error'', JObj [(''error_code'', JInt 5),
                                                          (''error_msg'', JStr ''x'')])])
               else response (JInt 7))
       ''friends.get'' ''t'' [] 3 2 False None world0
     = (Inr (JInt 7),
        world0\<lparr>calls := [prepare ''friends.get'' ''t'' [] False None],
               sent := replicate 2 (prepare ''friends.get'' ''t'' [] False None),
               slept := [2]\<rparr>)
   \<and> vk_api_request
       (\<lambda>i r. Body (JObj [(''error'', JObj [(''error_code'', JInt 5), (''error_msg'', JStr ''x'')])]))
       ''friends.get'' ''t'' [] 1 2 False None world0
     = (Inl RetriesExhausted,
        world0\<lparr>calls := [prepare ''friends.get'' ''t'' [] False None],
               sent := [prepare ''friends.get'' ''t'' [] False None],
               slept := [2]\<rparr>)"
proof -
  let ?e5 = "JObj [(''error'', JObj [(''error_code'', JInt 5), (''error_msg'', JStr ''x'')])]"
  let ?n1 = "\<lambda>(i::nat) (r::request). if i = 0 then RequestError
             else Body (JObj [(''error'', JObj [(''error_code'', JInt 30)])])"
  let ?n2 = "\<lambda>(i::nat) (r::request). Body ?e5"
  let ?n3 = "\<lambda>(i::nat) (r::request). if i = 0 then Body ?e5 else response (JInt 7)"
  let ?req = "prepare ''friends.get'' ''t'' [] False None"
  have a1: "\<And>i. i < 1 \<Longrightarrow> \<exists>e. attempt (?n1 (length (sent world0) + i) ?req) = Inl e"
    by (simp add: world0_def)
  have a2: "int 1 < 3" by simp
  have a3: "(0::int) \<le> 2" by simp
  have a4: "?n1 (length (sent world0) + 1) ?req = Body (JObj [(''error'', JObj [(''error_code'', JInt 30)])])"
    by simp
  have a5: "reported_code (JObj [(''error'', JObj [(''error_code'', JInt 30)])]) = Some 30"
    by (simp add: reported_code_def)
  have b1: "\<And>i. i < 0 \<Longrightarrow> \<exists>e. attempt (?n2 (length (sent world0) + i) ?req) = Inl e"
    by simp
  have b2: "int 0 < 1" by simp
  have b4: "?n2 (length (sent world0) + 0) ?req = Body ?e5"
    by simp
  have b5: "reported_code ?e5 = Some 5"
    by (simp add: reported_code_def)
  have c1: "\<And>i. i < 0 \<Longrightarrow> \<exists>e. attempt (?n3 (length (sent world0) + i) ?req) = Inl e"
    by simp
  have c2: "int 0 < 3" by simp
  have c4: "?n3 (length (sent world0) + 0) ?req = Body ?e5"
    by (simp add: world0_def)
  have r: "attempt (response (JInt 7)) = Inr (JInt 7)"
    by (simp add: response_def read_body_def exn_bind_def)
  show ?thesis
    using error_code_30_is_a_result_other_codes_are_retried[of 1 ?n1 world0 "''friends.get''" "''t''" "[]" False None 3 2, OF a1 a2 a3 a4 a5]
          error_code_30_is_a_result_other_codes_are_retried[of 0 ?n3 world0 "''friends.get''" "''t''" "[]" False None 3 2, OF c1 c2 a3 c4 b5]
          error_code_30_is_a_result_other_codes_are_retried[of 0 ?n2 world0 "''friends.get''" "''t''" "[]" False None 1 2, OF b1 b2 a3 b4 b5]
    by (simp add: world0_def numeral_2_eq_2 Let_def r)
qed

section \<open>Properties of the profile normalizer\<close>

lemma process_profile_Inr_dict:
  assumes "process_profile profile = Inr u"
  shows "\<exists>d. profile = JObj d"
  using assms by (cases profile) (simp_all add: process_profile_def exn_bind_def)

lemma process_profile_private_flag:
  assumes "process_profile profile = Inr u"
  shows "private_flag profile = Inr (is_private u)"
  using assms by (auto simp: process_profile_def exn_bind_Inr_iff)

lemma private_flag_dict:
  "private_flag (JObj d) =
     Inr (if map_of d ''deactivated'' \<noteq> None then JBool True
          else case map_of d ''is_closed'' of
                 None \<Rightarrow> JNull
               | Some c \<Rightarrow>
                   if truthy c
                   then JBool (\<not> truthy (case map_of d ''can_access_closed'' of
                                            None \<Rightarrow> JNull | Some a \<Rightarrow> a))
                   else c)"
  by (simp add: private_flag_def exn_bind_def split: option.splits)

text \<open>
  C7. For every raw record that \<^verbatim>\<open>process_profile\<close> turns into a user, \<open>is_private\<close> is
  \<^verbatim>\<open>True\<close> exactly when the record is marked deactivated, or its \<open>is_closed\<close> flag is true
  and its \<open>can_access_closed\<close> flag is absent or false. In every other case the value is a
  false one for Python: \<^verbatim>\<open>False\<close>, or the falsy \<open>is_closed\<close> itself, which is \<^verbatim>\<open>None\<close> when
  the key is absent; the callers only test it with \<^verbatim>\<open>if not\<close>.
\<close>

theorem process_profile_is_private:
  assumes "process_profile profile = Inr u"
  shows "((is_private u = JBool True) =
            (marked_deactivated profile \<or>
             (flag_true profile ''is_closed'' \<and> \<not> flag_true profile ''can_access_closed'')))
         \<and> (is_private u \<noteq> JBool True \<longrightarrow> \<not> truthy (is_private u))"
proof -
  obtain d where d: "profile = JObj d"
    using process_profile_Inr_dict[OF assms] by blast
  have "private_flag (JObj d) = Inr (is_private u)"
    using process_profile_private_flag[OF assms] d by simp
  then have p: "is_private u =
      (if map_of d ''deactivated'' \<noteq> None then JBool True
       else case map_of d ''is_closed'' of
              None \<Rightarrow> JNull
            | Some c \<Rightarrow>
                if truthy c
                then JBool (\<not> truthy (case map_of d ''can_access_closed'' of
                                         None \<Rightarrow> JNull | Some a \<Rightarrow> a))
                else c)"
    unfolding private_flag_dict by simp
  show ?thesis
    unfolding d p marked_deactivated_def flag_true_def
    by (auto split: option.splits)
qed

theorem process_profile_is_private_witness:
  "process_profile (JObj [(''id'', JInt 7), (''is_closed'', JBool True)]) =
      Inr \<lparr>uid = JInt 7, screen_name = JStr [], name = [], sex = JInt 0, home_town = JStr [],
           is_private = JBool True, friends_count = None, subscriptions_count = None\<rparr>
   \<and> flag_true (JObj [(''id'', JInt 7), (''is_closed'', JBool True)]) ''is_closed''
   \<and> \<not> flag_true (JObj [(''id'', JInt 7), (''is_closed'', JBool True)]) ''can_access_closed''"
proof -
  have h: "process_profile (JObj [(''id'', JInt 7), (''is_closed'', JBool True)]) =
      Inr \<lparr>uid = JInt 7, screen_name = JStr [], name = [], sex = JInt 0, home_town = JStr [],
           is_private = JBool True, friends_count = None, subscriptions_count = None\<rparr>"
    by (simp add: process_profile_def exn_bind_def pick_home_town_def private_flag_def
        strip_def py_str_def py_isspace_def)
  show ?thesis
    using h process_profile_is_private[OF h] by (simp add: marked_deactivated_def)
qed

section \<open>Properties of the subscription collector\<close>

lemma attempt_response [simp]: "attempt (response v) = Inr v"
  by (simp add: response_def read_body_def exn_bind_def)

lemma vk_api_request_first_ok:
  assumes "attempt (net (length (sent w)) (prepare m token ps u s)) = Inr v" "0 < retries"
  shows "vk_api_request net m token ps retries delay u s w =
     (Inr v, w\<lparr>calls := calls w @ [prepare m token ps u s],
               sent := sent w @ [prepare m token ps u s]\<rparr>)"
proof -
  obtain n where n: "nat retries = Suc n" using assms(2) by (cases "nat retries") auto
  show ?thesis using assms(1) by (simp add: vk_api_request_def n Let_def)
qed

lemma collect_ids_public:
  "collect_ids (map public_item ks) = Inr (map (\<lambda>k. str_int (int k)) ks)"
  by (induction ks) (simp_all add: public_item_def exn_bind_def py_str_def)

lemma length_item_ids [simp]: "length (item_ids a b) = b - a"
  by (simp add: item_ids_def)

lemma item_ids_append: "a \<le> b \<Longrightarrow> b \<le> c \<Longrightarrow> item_ids a b @ item_ids b c = item_ids a c"
  unfolding item_ids_def map_append[symmetric]
  by (metis le_Suc_ex upt_add_eq_append)

lemma take_item_ids: "a + n \<le> b \<Longrightarrow> take n (item_ids a b) = item_ids a (a + n)"
  by (simp add: item_ids_def take_map)

lemma page_listing:
  assumes srv: "\<And>i off. net i (prepare ''users.getSubscriptions'' token
                     (subscriptions_params user_id off) False None)
                   = response (listing_page tot (nat off))"
      and off: "0 \<le> off"
  shows "page net token user_id lim off acc cnt w =
     (Inr (min tot (nat off + 200) - nat off < 200
             \<or> lim \<le> int (length acc + (min tot (nat off + 200) - nat off)),
           acc @ item_ids (nat off) (min tot (nat off + 200)),
           JInt (int tot)),
      w\<lparr>calls := calls w @ [prepare ''users.getSubscriptions'' token
                               (subscriptions_params user_id off) False None],
        sent := sent w @ [prepare ''users.getSubscriptions'' token
                               (subscriptions_params user_id off) False None]\<rparr>)"
proof -
  have a: "api net ''users.getSubscriptions'' token (subscriptions_params user_id off) w =
     (Inr (listing_page tot (nat off)),
      w\<lparr>calls := calls w @ [prepare ''users.getSubscriptions'' token
                               (subscriptions_params user_id off) False None],
        sent := sent w @ [prepare ''users.getSubscriptions'' token
                               (subscriptions_params user_id off) False None]\<rparr>)"
    unfolding api_def by (rule vk_api_request_first_ok) (simp_all add: srv)
  show ?thesis
    unfolding page_def a item_ids_def
    by (simp add: listing_page_def dict_get_def Let_def exn_bind_def collect_ids_public)
qed

lemma paging_listing_650:
  assumes srv: "\<And>i off. net i (prepare ''users.getSubscriptions'' token
                     (subscriptions_params user_id off) False None)
                   = response (listing_page 650 (nat off))"
  shows "paging net token user_id 300 0 [] (JInt 0) w =
     Some (Inr (item_ids 0 400, JInt 650),
           w\<lparr>calls := calls w @
                  [prepare ''users.getSubscriptions'' token (subscriptions_params user_id 0) False None,
                   prepare ''users.getSubscriptions'' token (subscriptions_params user_id 200) False None],
             sent := sent w @
                  [prepare ''users.getSubscriptions'' token (subscriptions_params user_id 0) False None,
                   prepare ''users.getSubscriptions'' token (subscriptions_params user_id 200) False None]\<rparr>)"
proof -
  have p1: "page net token user_id 300 0 [] (JInt 0) w =
      (Inr (False, item_ids 0 200, JInt 650),
       w\<lparr>calls := calls w @ [prepare ''users.getSubscriptions'' token (subscriptions_params user_id 0) False None],
         sent := sent w @ [prepare ''users.getSubscriptions'' token (subscriptions_params user_id 0) False None]\<rparr>)"
    by (simp add: page_listing[OF srv])
  have p2: "page net token user_id 300 200 (item_ids 0 200) (JInt 650) w1 =
      (Inr (True, item_ids 0 400, JInt 650),
       w1\<lparr>calls := calls w1 @ [prepare ''users.getSubscriptions'' token (subscriptions_params user_id 200) False None],
         sent := sent w1 @ [prepare ''users.getSubscriptions'' token (subscriptions_params user_id 200) False None]\<rparr>)" for w1
    by (simp add: page_listing[OF srv] item_ids_append)
  show ?thesis
    apply (subst paging.simps)
    apply (simp only: p1 prod.case sum.case if_False)
    apply (subst paging.simps)
    apply (simp add: p2)
    done
qed

lemma listing_server_serves:
  "listing_server tot i (prepare ''users.getSubscriptions'' token
                     (subscriptions_params user_id off) False None)
                   = response (listing_page tot (nat off))"
  by (simp add: listing_server_def prepare_def subscriptions_params_def)

text \<open>
  C2 as stated has a third request, at offset 400. On the listing of 650 items the
  offsets requested are not 0, 200, 400.
\<close>

theorem no_request_at_offset_400:
  "map_option (\<lambda>r. requested_offsets (snd r))
       (paging (listing_server 650) ''t'' (JInt 1) 300 0 [] (JInt 0) world0)
     \<noteq> Some [Some (JInt 0), Some (JInt 200), Some (JInt 400)]"
  using paging_listing_650[of "listing_server 650" "''t''" "JInt 1" world0, OF listing_server_serves]
  by (simp add: world0_def requested_offsets_def prepare_def subscriptions_params_def)

lemma group_chunks_1200:
  assumes "length xs = 1200"
  shows "group_chunks xs = [take 500 xs, take 500 (drop 500 xs), drop 1000 xs]"
proof -
  have "[0 ..< (1200 + 499) div 500] = [0, 1, (2::nat)]"
    by (simp add: upt_rec)
  then show ?thesis using assms by (simp add: group_chunks_def)
qed

lemma concat_chunks_take:
  "concat (map (\<lambda>k. take n (drop (n * k) xs)) [0 ..< m]) = take (n * m) xs"
proof (induction m)
  case 0
  then show ?case by simp
next
  case (Suc m)
  have "take (n * m) xs @ take n (drop (n * m) xs) = take (n * m + n) xs"
    by (simp add: take_add)
  then show ?case using Suc by (simp add: add.commute)
qed

lemma concat_group_chunks: "concat (group_chunks xs) = xs"
proof -
  have "(length xs + 499) mod 500 < 500"
    by simp
  moreover have "500 * ((length xs + 499) div 500) + (length xs + 499) mod 500 = length xs + 499"
    by (rule mult_div_mod_eq)
  ultimately have "length xs \<le> 500 * ((length xs + 499) div 500)"
    by linarith
  then show ?thesis by (simp add: group_chunks_def concat_chunks_take)
qed

lemma length_group_chunks: "c \<in> set (group_chunks xs) \<Longrightarrow> length c \<le> 500"
  by (auto simp: group_chunks_def)

lemma store_groups_ok:
  assumes "\<And>g. g \<in> set gs \<Longrightarrow> \<exists>gd. read_group g = Inr gd"
  shows "\<exists>w'. store_groups me gs w = (None, w') \<and> calls w' = calls w \<and> sent w' = sent w"
  using assms
proof (induction gs arbitrary: w)
  case Nil
  then show ?case by simp
next
  case (Cons g gs)
  obtain gd where gd: "read_group g = Inr gd" using Cons.prems by auto
  have "\<exists>w'. store_groups me gs (w\<lparr>db := db w @ [CreateGroup gd, CreateSubscription me (gid gd)]\<rparr>) = (None, w')
      \<and> calls w' = calls (w\<lparr>db := db w @ [CreateGroup gd, CreateSubscription me (gid gd)]\<rparr>)
      \<and> sent w' = sent (w\<lparr>db := db w @ [CreateGroup gd, CreateSubscription me (gid gd)]\<rparr>)"
    by (rule Cons.IH) (use Cons.prems in auto)
  then show ?case by (simp add: gd)
qed

lemma prepare_groups_service:
  assumes "service_token \<noteq> []"
  shows "prepare ''groups.getById'' token (groups_params c) True (Some service_token) =
     \<lparr>meth = ''groups.getById'',
      params = [(''group_ids'', JStr (py_join '','' c)), (''fields'', JStr ''members_count''),
                (''access_token'', JStr service_token), (''v'', JStr ''5.131'')]\<rparr>"
  using assms by (simp add: prepare_def groups_params_def access_token_def)

section \<open>Properties of the crawl\<close>

lemma no_recursion_at_depth_limit:
  assumes "depth_limit \<le> current_depth"
  shows "get_detailed_data net token service_token user_id depth_limit current_depth
           friends_limit subscriptions_limit w =
         (case key_of user_id of
            None \<Rightarrow> Some (Inl TypeError)
          | Some k \<Rightarrow>
              if k \<in> visited w then Some (Inr w)
              else map_option Inr
                     (get_user_data net token service_token user_id friends_limit
                        subscriptions_limit (w\<lparr>visited := insert k (visited w)\<rparr>)))"
  using assms by (simp add: get_detailed_data.simps split: option.splits)

text \<open>The FRIEND statement writes nothing unless both of its nodes exist.\<close>

lemma friendship_needs_both_nodes:
  assumes "a \<notin> fst ` set (user_nodes g) \<or> b \<notin> fst ` set (user_nodes g)"
  shows "run_db_call (CreateFriendship a b) g = g"
  using assms by auto

text \<open>
  C4. The root (given as the string \<^verbatim>\<open>'1'\<close>, resolved to account 1) has the friends 2, 3
  and 4, of whom 3 is private; the store is empty at the start, as \<^verbatim>\<open>main\<close> leaves it. The
  run calls \<^verbatim>\<open>create_user\<close> and \<^verbatim>\<open>create_friendship\<close> for the friends 2 and 4 and not for
  3, and creates the three nodes 2, 4 and 1. But the two FRIEND statements are sent before
  the node of the root exists (it is written last, line 275), so their \<^verbatim>\<open>MATCH\<close> finds no
  start node: the graph has no FRIEND edge, where the specification has two.
\<close>

theorem root_friend_edges_are_not_created:
  "map_option db
     (final_world (get_detailed_data (social_server three_friends) ''t'' ''s'' (JStr ''1'')
                     1 1 100 300 world0))
   = Some [CreateUser \<lparr>uid = JInt 2, screen_name = JStr [], name = [], sex = JInt 0,
                        home_town = JStr [], is_private = JBool False,
                        friends_count = None, subscriptions_count = None\<rparr>,
           CreateFriendship (JInt 1) (JInt 2),
           CreateUser \<lparr>uid = JInt 4, screen_name = JStr [], name = [], sex = JInt 0,
                        home_town = JStr [], is_private = JBool False,
                        friends_count = None, subscriptions_count = None\<rparr>,
           CreateFriendship (JInt 1) (JInt 4),
           CreateUser \<lparr>uid = JInt 1, screen_name = JStr [], name = [], sex = JInt 0,
                        home_town = JStr [], is_private = JBool False,
                        friends_count = Some (JInt 3), subscriptions_count = Some (JInt 0)\<rparr>]
   \<and> map_option (\<lambda>g. (map fst (user_nodes g), friend_edges g))
       (graph_of_run (get_detailed_data (social_server three_friends) ''t'' ''s'' (JStr ''1'')
                        1 1 100 300 world0))
     = Some ([JInt 2, JInt 4, JInt 1], [])"
  by code_simp

text \<open>
  The same calls on a store that already holds a node for account 1 do create the two
  edges: what is missing on the wiped store is only the node of the root at the time the
  FRIEND statements run.
\<close>

lemma root_friend_edges_need_the_root_node:
  "map_option
     (\<lambda>w. friend_edges
            (graph_after (db w)
               (empty_graph\<lparr>user_nodes :=
                  [(JInt 1, user_node_of \<lparr>uid = JInt 1, screen_name = JStr [], name = [],
                                           sex = JInt 0, home_town = JStr [],
                                           is_private = JBool False, friends_count = None,
                                           subscriptions_count = None\<rparr>)]\<rparr>)))
     (final_world (get_detailed_data (social_server three_friends) ''t'' ''s'' (JStr ''1'')
                     1 1 100 300 world0))
   = Some [(JInt 1, JInt 2), (JInt 1, JInt 4)]"
  by code_simp

text \<open>
  C6. With \<^verbatim>\<open>depth_limit = 1\<close> and a root whose friends 2 and 4 have friends of their own
  (12 and 14): the only profile fetched is that of the root, and the nodes are those of the
  root and of its two friends, as specified. The FRIEND edges from the root to its
  friends, which the specification expects, are missing, for the reason given for C4.
\<close>

theorem depth_one_has_nodes_but_no_friend_edges:
  "map_option (\<lambda>w. map meth (calls w))
     (final_world (get_detailed_data (social_server two_levels) ''t'' ''s'' (JStr ''1'')
                     1 1 100 300 world0))
   = Some [''users.get'', ''friends.get'', ''users.getSubscriptions'']
   \<and> map_option (\<lambda>g. (map fst (user_nodes g), friend_edges g))
       (graph_of_run (get_detailed_data (social_server two_levels) ''t'' ''s'' (JStr ''1'')
                        1 1 100 300 world0))
     = Some ([JInt 2, JInt 4, JInt 1], [])"
  by code_simp

section \<open>The subscriptions count that is persisted\<close>

lemma parsed_pages_append:
  "parsed_pages net i (xs @ ys) = parsed_pages net i xs @ parsed_pages net (i + length xs) ys"
  by (induction xs arbitrary: i) simp_all

lemma last_reported_append:
  "last_reported (last_reported cnt ps) qs = last_reported cnt (ps @ qs)"
  by (simp add: last_reported_def)

lemma attempts_history:
  assumes "attempts net req delay n w = (res, w')"
  shows "\<exists>k. sent w' = sent w @ replicate k req \<and> calls w' = calls w \<and> db w' = db w
            \<and> visited w' = visited w
            \<and> parsed_pages net (length (sent w)) (replicate k req) = page_of req res"
  using assms
proof (induction n arbitrary: w)
  case 0
  then have "w' = w" "res = Inl RetriesExhausted" by simp_all
  then show ?case by (intro exI[of _ 0]) (simp add: page_of_def)
next
  case (Suc n)
  let ?w1 = "w\<lparr>sent := sent w @ [req]\<rparr>"
  show ?case
  proof (cases "attempt (net (length (sent w)) req)")
    case (Inr v)
    then have "w' = ?w1" "res = Inr v" using Suc.prems by (simp_all add: Let_def)
    then show ?thesis using Inr by (intro exI[of _ 1]) simp
  next
    case (Inl e)
    have pe: "page_of req (Inl e) = []" by (simp add: page_of_def)
    show ?thesis
    proof (cases "delay < 0")
      case True
      then have "w' = ?w1" "res = Inl ValueError" using Suc.prems Inl by (simp_all add: Let_def)
      then show ?thesis using Inl by (intro exI[of _ 1]) (simp add: page_of_def)
    next
      case False
      then have "attempts net req delay n (?w1\<lparr>slept := slept ?w1 @ [delay]\<rparr>) = (res, w')"
        using Suc.prems Inl by (simp add: Let_def)
      from Suc.IH[OF this] obtain k where k:
        "sent w' = sent w @ [req] @ replicate k req" "calls w' = calls w" "db w' = db w"
        "visited w' = visited w"
        "parsed_pages net (Suc (length (sent w))) (replicate k req) = page_of req res"
        by auto
      show ?thesis
        using k Inl by (intro exI[of _ "Suc k"]) (simp add: pe)
    qed
  qed
qed

lemma vk_api_request_history:
  assumes "vk_api_request net m token ps retries delay u s w = (res, w')"
  shows "\<exists>ext. sent w' = sent w @ ext \<and> calls w' = calls w @ [prepare m token ps u s]
            \<and> db w' = db w \<and> visited w' = visited w
            \<and> parsed_pages net (length (sent w)) ext = page_of (prepare m token ps u s) res"
proof -
  have "attempts net (prepare m token ps u s) delay (nat retries)
          (w\<lparr>calls := calls w @ [prepare m token ps u s]\<rparr>) = (res, w')"
    using assms by (simp add: vk_api_request_def Let_def)
  from attempts_history[OF this] show ?thesis by auto
qed

lemma meth_prepare [simp]: "meth (prepare m token ps u s) = m"
  by (simp add: prepare_def)

lemma page_history:
  assumes "page net token user_id lim off acc cnt w = (r, w')"
  shows "\<exists>ext. sent w' = sent w @ ext
           \<and> calls w' = calls w @ [prepare ''users.getSubscriptions'' token
                                     (subscriptions_params user_id off) False None]
           \<and> db w' = db w \<and> visited w' = visited w
           \<and> (\<forall>stop ids c. r = Inr (stop, ids, c) \<longrightarrow>
                  c = last_reported cnt (parsed_pages net (length (sent w)) ext))"
proof -
  obtain res w1 where a: "api net ''users.getSubscriptions'' token
                            (subscriptions_params user_id off) w = (res, w1)"
    by (cases "api net ''users.getSubscriptions'' token (subscriptions_params user_id off) w")
  from vk_api_request_history[OF a[unfolded api_def]] obtain ext where ext:
    "sent w1 = sent w @ ext"
    "calls w1 = calls w @ [prepare ''users.getSubscriptions'' token
                             (subscriptions_params user_id off) False None]"
    "db w1 = db w" "visited w1 = visited w"
    "parsed_pages net (length (sent w)) ext =
       page_of (prepare ''users.getSubscriptions'' token (subscriptions_params user_id off) False None) res"
    by blast
  have w': "w' = w1"
    using assms a by (auto simp: page_def Let_def split: sum.splits json.splits)
  have "\<forall>stop ids c. r = Inr (stop, ids, c) \<longrightarrow>
           c = last_reported cnt (page_of (prepare ''users.getSubscriptions'' token
                 (subscriptions_params user_id off) False None) res)"
    using assms a
    by (auto simp: page_def Let_def page_of_def last_reported_def split: sum.splits json.splits)
  then show ?thesis using ext w' by auto
qed

lemma paging_history_aux:
  assumes "paging net token user_id lim off acc cnt w = Some y"
  shows "\<exists>ext cs. sent (snd y) = sent w @ ext \<and> calls (snd y) = calls w @ cs
           \<and> (\<forall>c \<in> set cs. meth c = ''users.getSubscriptions'')
           \<and> db (snd y) = db w \<and> visited (snd y) = visited w
           \<and> (\<forall>ids c. fst y = Inr (ids, c) \<longrightarrow>
                  c = last_reported cnt (parsed_pages net (length (sent w)) ext))"
proof (rule paging.raw_induct[where P = "\<lambda>net token user_id lim off acc cnt w y.
     \<exists>ext cs. sent (snd y) = sent w @ ext \<and> calls (snd y) = calls w @ cs
           \<and> (\<forall>c \<in> set cs. meth c = ''users.getSubscriptions'')
           \<and> db (snd y) = db w \<and> visited (snd y) = visited w
           \<and> (\<forall>ids c. fst y = Inr (ids, c) \<longrightarrow>
                  c = last_reported cnt (parsed_pages net (length (sent w)) ext))", OF _ assms])
  fix paging' net token user_id lim off acc cnt w y
  assume IH: "\<And>net token user_id lim off acc cnt w y.
     paging' net token user_id lim off acc cnt w = Some y \<Longrightarrow>
     \<exists>ext cs. sent (snd y) = sent w @ ext \<and> calls (snd y) = calls w @ cs
           \<and> (\<forall>c \<in> set cs. meth c = ''users.getSubscriptions'')
           \<and> db (snd y) = db w \<and> visited (snd y) = visited w
           \<and> (\<forall>ids c. fst y = Inr (ids, c) \<longrightarrow>
                  c = last_reported cnt (parsed_pages net (length (sent w)) ext))"
  and prems: "(case page net token user_id lim off acc cnt w of
      (Inl e, w1) \<Rightarrow> Some (Inl e, w1)
      | (Inr (stop, ids, cnt), w1) \<Rightarrow>
          if stop then Some (Inr (ids, cnt), w1)
          else paging' net token user_id lim (off + 200) ids cnt w1) = Some y"
  let ?req = "prepare ''users.getSubscriptions'' token (subscriptions_params user_id off) False None"
  obtain r w1 where p: "page net token user_id lim off acc cnt w = (r, w1)"
    by (cases "page net token user_id lim off acc cnt w")
  from page_history[OF p] obtain ext1 where e1:
    "sent w1 = sent w @ ext1" "calls w1 = calls w @ [?req]"
    "db w1 = db w" "visited w1 = visited w"
    and e1c: "\<And>stop ids c. r = Inr (stop, ids, c) \<Longrightarrow>
        c = last_reported cnt (parsed_pages net (length (sent w)) ext1)"
    by blast
  show "\<exists>ext cs. sent (snd y) = sent w @ ext \<and> calls (snd y) = calls w @ cs
           \<and> (\<forall>c \<in> set cs. meth c = ''users.getSubscriptions'')
           \<and> db (snd y) = db w \<and> visited (snd y) = visited w
           \<and> (\<forall>ids c. fst y = Inr (ids, c) \<longrightarrow>
                  c = last_reported cnt (parsed_pages net (length (sent w)) ext))"
  proof (cases r)
    case (Inl e)
    then have "y = (Inl e, w1)" using prems p by simp
    then show ?thesis using e1
      by (intro exI[of _ ext1] exI[of _ "[?req]"]) simp
  next
    case (Inr t)
    obtain stop ids c where t: "t = (stop, ids, c)" by (cases t)
    have c: "c = last_reported cnt (parsed_pages net (length (sent w)) ext1)"
      using e1c Inr t by simp
    show ?thesis
    proof (cases stop)
      case True
      then have "y = (Inr (ids, c), w1)" using prems p Inr t by simp
      then show ?thesis using e1 c
        by (intro exI[of _ ext1] exI[of _ "[?req]"]) simp
    next
      case False
      then have rec: "paging' net token user_id lim (off + 200) ids c w1 = Some y"
        using prems p Inr t by simp
      from IH[OF rec] obtain ext2 cs2 where e2:
        "sent (snd y) = sent w1 @ ext2" "calls (snd y) = calls w1 @ cs2"
        "\<forall>c \<in> set cs2. meth c = ''users.getSubscriptions''"
        "db (snd y) = db w1" "visited (snd y) = visited w1"
        and e2c: "\<forall>ids' c'. fst y = Inr (ids', c') \<longrightarrow>
             c' = last_reported c (parsed_pages net (length (sent w1)) ext2)"
        by blast
      have pp: "parsed_pages net (length (sent w)) (ext1 @ ext2) =
          parsed_pages net (length (sent w)) ext1 @ parsed_pages net (length (sent w1)) ext2"
        by (simp add: parsed_pages_append e1(1))
      have "\<forall>ids' c'. fst y = Inr (ids', c') \<longrightarrow>
             c' = last_reported cnt (parsed_pages net (length (sent w)) (ext1 @ ext2))"
        using e2c unfolding pp c last_reported_append by simp
      then show ?thesis
        using e1 e2
        by (intro exI[of _ "ext1 @ ext2"] exI[of _ "?req # cs2"]) simp
    qed
  qed
qed

lemma paging_history:
  assumes "paging net token user_id lim off acc cnt w = Some (r, w')"
  shows "\<exists>ext cs. sent w' = sent w @ ext \<and> calls w' = calls w @ cs
           \<and> (\<forall>c \<in> set cs. meth c = ''users.getSubscriptions'')
           \<and> db w' = db w \<and> visited w' = visited w
           \<and> (\<forall>ids c. r = Inr (ids, c) \<longrightarrow>
                  c = last_reported cnt (parsed_pages net (length (sent w)) ext))"
  using paging_history_aux[OF assms] by simp


lemma store_groups_frame:
  assumes "store_groups me gs w = (r, w')"
  shows "sent w' = sent w \<and> calls w' = calls w \<and> visited w' = visited w"
  using assms
proof (induction gs arbitrary: w)
  case Nil
  then show ?case by simp
next
  case (Cons g gs)
  show ?case
  proof (cases "read_group g")
    case (Inl e)
    then show ?thesis using Cons.prems by simp
  next
    case (Inr gd)
    then have "store_groups me gs
         (w\<lparr>db := db w @ [CreateGroup gd, CreateSubscription me (gid gd)]\<rparr>) = (r, w')"
      using Cons.prems by simp
    from Cons.IH[OF this] show ?thesis by simp
  qed
qed

lemma page_of_other [simp]:
  "m \<noteq> ''users.getSubscriptions'' \<Longrightarrow> page_of (prepare m token ps u s) res = []"
  by (simp add: page_of_def split: sum.splits json.splits)

lemma resolve_chunks_history:
  assumes "resolve_chunks net token service_token me chunks w = (r, w')"
  shows "\<exists>ext cs. sent w' = sent w @ ext \<and> calls w' = calls w @ cs
           \<and> (\<forall>c \<in> set cs. meth c = ''groups.getById'')
           \<and> visited w' = visited w
           \<and> parsed_pages net (length (sent w)) ext = []"
  using assms
proof (induction chunks arbitrary: w)
  case Nil
  then show ?case by simp
next
  case (Cons chunk rest)
  let ?req = "prepare ''groups.getById'' token (groups_params chunk) True (Some service_token)"
  obtain res w1 where a: "vk_api_request net ''groups.getById'' token (groups_params chunk) 3 2 True
             (Some service_token) w = (res, w1)"
    by (cases "vk_api_request net ''groups.getById'' token (groups_params chunk) 3 2 True
             (Some service_token) w")
  from vk_api_request_history[OF a] obtain ext1 where e1:
    "sent w1 = sent w @ ext1" "calls w1 = calls w @ [?req]" "visited w1 = visited w"
    "parsed_pages net (length (sent w)) ext1 = []"
    by auto
  have stop_here: "w' = w1 \<Longrightarrow> ?case"
    using e1 by (intro exI[of _ ext1] exI[of _ "[?req]"]) simp
  have rec: "resolve_chunks net token service_token me rest w2 = (r, w') \<Longrightarrow>
             sent w2 = sent w1 \<Longrightarrow> calls w2 = calls w1 \<Longrightarrow> visited w2 = visited w1 \<Longrightarrow> ?case" for w2
  proof -
    assume r: "resolve_chunks net token service_token me rest w2 = (r, w')"
      and f: "sent w2 = sent w1" "calls w2 = calls w1" "visited w2 = visited w1"
    from Cons.IH[OF r] obtain ext2 cs2 where e2:
      "sent w' = sent w2 @ ext2" "calls w' = calls w2 @ cs2"
      "\<forall>c \<in> set cs2. meth c = ''groups.getById''" "visited w' = visited w2"
      "parsed_pages net (length (sent w2)) ext2 = []"
      by blast
    show ?case
      using e1 e2 f
      by (intro exI[of _ "ext1 @ ext2"] exI[of _ "?req # cs2"]) (simp add: parsed_pages_append)
  qed
  show ?case
  proof (cases res)
    case (Inl e)
    then have "w' = w1" using Cons.prems a by simp
    then show ?thesis by (rule stop_here)
  next
    case (Inr groups_info)
    show ?thesis
    proof (cases "\<exists>gs. groups_info = JList gs")
      case False
      then have "resolve_chunks net token service_token me rest w1 = (r, w')"
        using Cons.prems a Inr by (cases groups_info) simp_all
      then show ?thesis by (rule rec) simp_all
    next
      case True
      then obtain gs where gs: "groups_info = JList gs" by blast
      obtain r2 w2 where s: "store_groups me gs w1 = (r2, w2)"
        by (cases "store_groups me gs w1")
      note f = store_groups_frame[OF s]
      show ?thesis
      proof (cases r2)
        case None
        then have "resolve_chunks net token service_token me rest w2 = (r, w')"
          using Cons.prems a Inr gs s by simp
        then show ?thesis using f by (intro rec[of w2]) simp_all
      next
        case (Some e)
        then have "w' = w2" using Cons.prems a Inr gs s by simp
        then show ?thesis
          using e1 f by (intro exI[of _ ext1] exI[of _ "[?req]"]) simp
      qed
    qed
  qed
qed

lemma subscriptions_try_history:
  assumes "subscriptions_try net token service_token user_id lim ui w = Some (r, w')"
  shows "\<exists>ext cs. sent w' = sent w @ ext \<and> calls w' = calls w @ cs
           \<and> (\<forall>c \<in> set cs. meth c = ''users.getSubscriptions'' \<or> meth c = ''groups.getById'')
           \<and> visited w' = visited w
           \<and> (\<forall>c. r = Inr c \<longrightarrow>
                  c = last_reported (JInt 0) (parsed_pages net (length (sent w)) ext))"
proof -
  obtain r1 w1 where p: "paging net token user_id lim 0 [] (JInt 0) w = Some (r1, w1)"
    using assms by (auto simp: subscriptions_try_def split: option.splits)
  from paging_history[OF p] obtain ext1 cs1 where e1:
    "sent w1 = sent w @ ext1" "calls w1 = calls w @ cs1"
    "\<forall>c \<in> set cs1. meth c = ''users.getSubscriptions''" "visited w1 = visited w"
    and e1c: "\<forall>ids c. r1 = Inr (ids, c) \<longrightarrow>
                  c = last_reported (JInt 0) (parsed_pages net (length (sent w)) ext1)"
    by blast
  show ?thesis
  proof (cases r1)
    case (Inl e)
    then have "r = Inl e" "w' = w1" using assms p by (simp_all add: subscriptions_try_def)
    then show ?thesis using e1 by (intro exI[of _ ext1] exI[of _ cs1]) simp
  next
    case (Inr t)
    obtain ids c where t: "t = (ids, c)" by (cases t)
    have c: "c = last_reported (JInt 0) (parsed_pages net (length (sent w)) ext1)"
      using e1c Inr t by simp
    show ?thesis
    proof (cases "py_take lim ids = []")
      case True
      then have "r = Inr c" "w' = w1"
        using assms p Inr t by (simp_all add: subscriptions_try_def Let_def)
      then show ?thesis using e1 c by (intro exI[of _ ext1] exI[of _ cs1]) simp
    next
      case False
      obtain r2 w2 where rc: "resolve_chunks net token service_token (uid ui)
                        (group_chunks (py_take lim ids)) w1 = (r2, w2)"
        by (cases "resolve_chunks net token service_token (uid ui)
                        (group_chunks (py_take lim ids)) w1")
      from resolve_chunks_history[OF rc] obtain ext2 cs2 where e2:
        "sent w2 = sent w1 @ ext2" "calls w2 = calls w1 @ cs2"
        "\<forall>c \<in> set cs2. meth c = ''groups.getById''" "visited w2 = visited w1"
        "parsed_pages net (length (sent w1)) ext2 = []"
        by blast
      have w': "w' = w2" and r: "r = (case r2 of Some e \<Rightarrow> Inl e | None \<Rightarrow> Inr c)"
        using assms p Inr t False rc
        by (auto simp: subscriptions_try_def Let_def split: option.splits)
      have "\<forall>c'. r = Inr c' \<longrightarrow>
              c' = last_reported (JInt 0) (parsed_pages net (length (sent w)) (ext1 @ ext2))"
        using r c e2(5) e1(1) by (auto simp: parsed_pages_append split: option.splits)
      then show ?thesis
        using e1 e2 w'
        by (intro exI[of _ "ext1 @ ext2"] exI[of _ "cs1 @ cs2"]) auto
    qed
  qed
qed

lemma map_of_merge_node [simp]: "map_of (merge_node i v ps) i = Some v"
  by (induction ps) auto

lemma graph_after_snoc_user:
  "map_of (user_nodes (graph_after (cs @ [CreateUser u]) g)) (uid u) = Some (user_node_of u)"
  by (simp add: graph_after_def)


text \<open>
  The statement that \<^verbatim>\<open>get_user_data\<close> sends for its own user (line 275). For a user whose
  profile was fetched and whose subscriptions block ran to its end without an exception,
  the \<open>subscriptions_count\<close> in it is the \<open>count\<close> field of the last subscriptions page that
  the block received (0 if the block received no page), whatever the number of ids
  collected, kept after the truncation or resolved to groups; right after that statement
  the node of the user carries this count.
\<close>

lemma own_write_carries_last_reported_total:
  assumes "fetch_profile net token user_id w = (Inr ui, w1)"
      and "friends_block net token user_id friends_limit ui w1 = (fc, w2)"
      and "subscriptions_try net token service_token user_id subscriptions_limit ui w2 =
             Some (Inr cnt, w3)"
  shows "\<exists>ext. sent w3 = sent w2 @ ext
           \<and> cnt = last_reported (JInt 0) (parsed_pages net (length (sent w2)) ext)
           \<and> get_user_data net token service_token user_id friends_limit subscriptions_limit w =
               Some (w3\<lparr>db := db w3 @
                  [CreateUser (ui\<lparr>friends_count := Some (JInt fc),
                                  subscriptions_count := Some cnt\<rparr>)]\<rparr>)
           \<and> map_option node_subscriptions_count
                 (map_of (user_nodes (graph_after
                    (db w3 @ [CreateUser (ui\<lparr>friends_count := Some (JInt fc),
                                             subscriptions_count := Some cnt\<rparr>)]) g)) (uid ui))
               = Some cnt"
proof -
  from subscriptions_try_history[OF assms(3)] obtain ext where
    e: "sent w3 = sent w2 @ ext"
       "cnt = last_reported (JInt 0) (parsed_pages net (length (sent w2)) ext)"
    by blast
  have g: "get_user_data net token service_token user_id friends_limit subscriptions_limit w =
               Some (w3\<lparr>db := db w3 @
                  [CreateUser (ui\<lparr>friends_count := Some (JInt fc),
                                  subscriptions_count := Some cnt\<rparr>)]\<rparr>)"
    using assms by (simp add: get_user_data_def subscriptions_block_def)
  have n: "map_option node_subscriptions_count
                 (map_of (user_nodes (graph_after
                    (db w3 @ [CreateUser (ui\<lparr>friends_count := Some (JInt fc),
                                             subscriptions_count := Some cnt\<rparr>)]) g)) (uid ui))
               = Some cnt"
    using graph_after_snoc_user[of "db w3" "ui\<lparr>friends_count := Some (JInt fc),
                                             subscriptions_count := Some cnt\<rparr>" g]
    by (simp add: user_node_of_def)
  show ?thesis using e g n by blast
qed

text \<open>
  C10. The accounts 1 and 2 are friends of each other and each has 3 subscriptions; the run
  is started as \<^verbatim>\<open>main\<close> starts it, with the id typed at the prompt, and with
  \<^verbatim>\<open>depth_limit = 2\<close>; no request fails. Every subscriptions page received reports the
  count 3, and \<^verbatim>\<open>get_user_data\<close> writes the node of account 1 with the count 3. Then the
  crawl of account 2 finds account 1 in the friend list and sends the user statement for it
  again (line 188), from a profile that has no \<open>subscriptions_count\<close> key, so that the
  statement sets the count to its default 0 (line 90). At the end of the run the node of
  account 1 has the count 0, where the claim has 3; the node of account 2, written last by
  its own crawl, has 3.
\<close>

theorem friend_upsert_resets_the_count:
  "map_option (reported_counts (subscriber_server 3 mutual_pair))
     (final_world (get_detailed_data (subscriber_server 3 mutual_pair) ''t'' ''s'' (JStr ''1'')
                     2 1 100 300 world0))
     = Some [JInt 3, JInt 3]
   \<and> map_option (count_writes (JInt 1))
       (final_world (get_detailed_data (subscriber_server 3 mutual_pair) ''t'' ''s'' (JStr ''1'')
                       2 1 100 300 world0))
     = Some [Some (JInt 3), None]
   \<and> map_option (stored_count (JInt 1))
       (graph_of_run (get_detailed_data (subscriber_server 3 mutual_pair) ''t'' ''s'' (JStr ''1'')
                        2 1 100 300 world0))
     = Some (Some (JInt 0))
   \<and> map_option (stored_count (JInt 2))
       (graph_of_run (get_detailed_data (subscriber_server 3 mutual_pair) ''t'' ''s'' (JStr ''1'')
                        2 1 100 300 world0))
     = Some (Some (JInt 3))"
  by code_simp

section \<open>The subscription collector as a whole\<close>

lemma item_ids_empty [simp]: "item_ids a a = []"
  by (simp add: item_ids_def)

text \<open>On a listing served in pages of 200, the loop goes through the full pages that leave
  the accumulator below the limit, and stops at the first page that is short or fills it.\<close>

lemma paging_listing_pages:
  assumes srv: "\<And>i off. net i (prepare ''users.getSubscriptions'' token
                     (subscriptions_params user_id off) False None)
                   = response (listing_page tot (nat off))"
      and cont: "\<And>i. i < m \<Longrightarrow> 200 * (j + i + 1) \<le> tot \<and> int (200 * (j + i + 1)) < lim"
  shows "paging net token user_id lim (int (200 * j)) (item_ids 0 (200 * j)) cnt w =
         paging net token user_id lim (int (200 * (j + m))) (item_ids 0 (200 * (j + m)))
           (if m = 0 then cnt else JInt (int tot))
           (w\<lparr>calls := calls w @ map (sub_request token user_id) [j ..< j + m],
              sent := sent w @ map (sub_request token user_id) [j ..< j + m]\<rparr>)"
  using cont
proof (induction m arbitrary: j cnt w)
  case 0
  then show ?case by simp
next
  case (Suc m)
  have c0: "200 * (j + 1) \<le> tot" "int (200 * (j + 1)) < lim"
    using Suc.prems[of 0] by simp_all
  let ?w1 = "w\<lparr>calls := calls w @ [sub_request token user_id j],
                sent := sent w @ [sub_request token user_id j]\<rparr>"
  have p: "page net token user_id lim (int (200 * j)) (item_ids 0 (200 * j)) cnt w =
           (Inr (False, item_ids 0 (200 * (j + 1)), JInt (int tot)), ?w1)"
  proof -
    have nj: "nat (int (200 * j)) = 200 * j" by simp
    have z: "0 \<le> int (200 * j)" by simp
    note pl = page_listing[OF srv z, where lim = lim and acc = "item_ids 0 (200 * j)"
                and cnt = cnt and w = w, unfolded nj]
    have mn: "min tot (200 * j + 200) = 200 * j + 200" using c0 by simp
    have "item_ids 0 (200 * j) @ item_ids (200 * j) (200 * j + 200) = item_ids 0 (200 * j + 200)"
      by (rule item_ids_append) simp_all
    moreover have "200 * j + 200 = 200 * (j + 1)" by simp
    ultimately have ap: "item_ids 0 (200 * j) @ item_ids (200 * j) (200 * j + 200) =
                         item_ids 0 (200 * (j + 1))"
      by (simp only:)
    have st: "\<not> (200 * j + 200 - 200 * j < 200 \<or> lim \<le> int (length (item_ids 0 (200 * j)) + (200 * j + 200 - 200 * j)))"
      using c0 by simp
    show ?thesis
      unfolding pl mn ap sub_request_def using st by simp
  qed
  have first: "paging net token user_id lim (int (200 * j)) (item_ids 0 (200 * j)) cnt w =
        paging net token user_id lim (int (200 * (j + 1))) (item_ids 0 (200 * (j + 1)))
          (JInt (int tot)) ?w1"
    apply (subst paging.simps)
    apply (simp only: p prod.case sum.case if_False)
    apply (simp add: algebra_simps)
    done
  have "\<And>i. i < m \<Longrightarrow> 200 * (j + 1 + i + 1) \<le> tot \<and> int (200 * (j + 1 + i + 1)) < lim"
    using Suc.prems[of "Suc i" for i] by simp
  from Suc.IH[of "j + 1" "JInt (int tot)" ?w1, OF this]
  have rest: "paging net token user_id lim (int (200 * (j + 1))) (item_ids 0 (200 * (j + 1)))
          (JInt (int tot)) ?w1 =
        paging net token user_id lim (int (200 * (j + 1 + m))) (item_ids 0 (200 * (j + 1 + m)))
          (JInt (int tot))
          (?w1\<lparr>calls := calls ?w1 @ map (sub_request token user_id) [j + 1 ..< j + 1 + m],
               sent := sent ?w1 @ map (sub_request token user_id) [j + 1 ..< j + 1 + m]\<rparr>)"
    by simp
  have l: "[j ..< j + Suc m] = j # [j + 1 ..< j + 1 + m]"
    by (simp add: upt_conv_Cons)
  show ?case
    unfolding first rest l by simp
qed

lemma paging_listing_result:
  assumes srv: "\<And>i off. net i (prepare ''users.getSubscriptions'' token
                     (subscriptions_params user_id off) False None)
                   = response (listing_page tot (nat off))"
      and cont: "\<And>i. i < p \<Longrightarrow> 200 * (i + 1) \<le> tot \<and> int (200 * (i + 1)) < lim"
      and le: "200 * p \<le> tot"
      and stop: "tot < 200 * p + 200 \<or> lim \<le> int (min tot (200 * p + 200))"
  shows "paging net token user_id lim 0 [] (JInt 0) w =
         Some (Inr (item_ids 0 (min tot (200 * p + 200)), JInt (int tot)),
               w\<lparr>calls := calls w @ map (sub_request token user_id) [0 ..< Suc p],
                  sent := sent w @ map (sub_request token user_id) [0 ..< Suc p]\<rparr>)"
proof -
  let ?w1 = "w\<lparr>calls := calls w @ map (sub_request token user_id) [0 ..< p],
                sent := sent w @ map (sub_request token user_id) [0 ..< p]\<rparr>"
  have "paging net token user_id lim (int (200 * 0)) (item_ids 0 (200 * 0)) (JInt 0) w =
        paging net token user_id lim (int (200 * (0 + p))) (item_ids 0 (200 * (0 + p)))
          (if p = 0 then JInt 0 else JInt (int tot))
          (w\<lparr>calls := calls w @ map (sub_request token user_id) [0 ..< 0 + p],
             sent := sent w @ map (sub_request token user_id) [0 ..< 0 + p]\<rparr>)"
    by (rule paging_listing_pages[OF srv]) (use cont in simp)
  then have a: "paging net token user_id lim 0 [] (JInt 0) w =
        paging net token user_id lim (int (200 * p)) (item_ids 0 (200 * p))
          (if p = 0 then JInt 0 else JInt (int tot)) ?w1"
    by simp
  have pg: "page net token user_id lim (int (200 * p)) (item_ids 0 (200 * p))
              (if p = 0 then JInt 0 else JInt (int tot)) ?w1 =
           (Inr (True, item_ids 0 (min tot (200 * p + 200)), JInt (int tot)),
            ?w1\<lparr>calls := calls ?w1 @ [sub_request token user_id p],
                sent := sent ?w1 @ [sub_request token user_id p]\<rparr>)"
  proof -
    have nj: "nat (int (200 * p)) = 200 * p" by simp
    have z: "0 \<le> int (200 * p)" by simp
    note pl = page_listing[OF srv z, where lim = lim and acc = "item_ids 0 (200 * p)"
                and cnt = "if p = 0 then JInt 0 else JInt (int tot)" and w = ?w1, unfolded nj]
    have ap: "item_ids 0 (200 * p) @ item_ids (200 * p) (min tot (200 * p + 200)) =
              item_ids 0 (min tot (200 * p + 200))"
      using le by (simp add: item_ids_append)
    have st: "min tot (200 * p + 200) - 200 * p < 200
              \<or> lim \<le> int (length (item_ids 0 (200 * p)) + (min tot (200 * p + 200) - 200 * p))"
      using le stop by auto
    show ?thesis
      unfolding pl ap sub_request_def using st by simp
  qed
  show ?thesis
    unfolding a
    apply (subst paging.simps)
    apply (simp only: pg prod.case sum.case if_True)
    apply simp
    done
qed

text \<open>Up to 500 ids make one chunk, and its lookup is one call.\<close>

lemma group_chunks_single:
  assumes "0 < length xs" "length xs \<le> 500"
  shows "group_chunks xs = [xs]"
proof -
  obtain k where k: "length xs = Suc k" "k < 500"
    using assms by (cases "length xs") auto
  have "length xs + 499 = 500 + k" using k by simp
  then have "(length xs + 499) div 500 = 1" using k(2) by simp
  then show ?thesis using assms(2) by (simp add: group_chunks_def)
qed

lemma resolve_single_chunk_calls:
  assumes "resolve_chunks net token service_token me [c] w = (r, w')"
  shows "calls w' = calls w @ [prepare ''groups.getById'' token (groups_params c) True
                                 (Some service_token)]"
proof -
  obtain res w1 where a: "vk_api_request net ''groups.getById'' token (groups_params c) 3 2 True
             (Some service_token) w = (res, w1)"
    by (cases "vk_api_request net ''groups.getById'' token (groups_params c) 3 2 True
             (Some service_token) w")
  from vk_api_request_history[OF a]
  have c1: "calls w1 = calls w @ [prepare ''groups.getById'' token (groups_params c) True
                                    (Some service_token)]"
    by auto
  have "w' = w1 \<or> (\<exists>gs r2. store_groups me gs w1 = (r2, w'))"
    using assms a by (auto split: sum.splits json.splits prod.splits option.splits)
  then show ?thesis using c1 store_groups_frame by metis
qed

text \<open>One pass of the loop, lines 206 to 232, on a page that is read without an exception.\<close>

lemma paging_stop_rule:
  assumes "api net ''users.getSubscriptions'' token (subscriptions_params user_id off) w =
             (Inr (JObj d), w1)"
      and "py_iter (dict_get d ''items'' (JList [])) = Inr its"
      and "collect_ids its = Inr ids"
  shows "paging net token user_id lim off acc cnt w =
           (if length its < 200 \<or> lim \<le> int (length (acc @ ids))
            then Some (Inr (acc @ ids, dict_get d ''count'' (JInt 0)), w1)
            else paging net token user_id lim (off + 200) (acc @ ids)
                   (dict_get d ''count'' (JInt 0)) w1)"
proof -
  have l: "py_len (dict_get d ''items'' (JList [])) = Inr (length its)"
    using assms(2) by (cases "dict_get d ''items'' (JList [])") auto
  have p: "page net token user_id lim off acc cnt w =
        (Inr (length its < 200 \<or> lim \<le> int (length (acc @ ids)), acc @ ids,
              dict_get d ''count'' (JInt 0)), w1)"
    using assms l by (simp add: page_def Let_def exn_bind_def)
  show ?thesis
    by (subst paging.simps) (simp only: p prod.case sum.case)
qed

text \<open>
  C2 (as amended). For a user whose subscriptions listing reports 650 items, all publicly
  joinable, served in pages of 200, and \<^verbatim>\<open>subscriptions_limit = 300\<close>: the collector requests
  the pages at the offsets 0 and 200 and no other, because after the second page the
  accumulator holds 400 ids, which is not below the limit; it then makes one group lookup,
  for exactly the first 300 ids, whatever the lookup answers. The third part is the stop
  rule for any remote side and any page that is read without an exception: the loop is left
  with the page when the page has fewer than 200 items or the accumulator has reached the
  limit, and goes on with the next offset otherwise. The last part is the whole loop on a
  listing of any number \<open>tot\<close> of such items and with any limit: the pages requested are those
  at the offsets \<open>0, 200, ..., 200 p\<close>, where the page at \<open>200 p\<close> is the first one that is
  short or that brings the accumulator to the limit, and the loop ends with the ids of all
  items up to the end of that page and with the reported count \<open>tot\<close>.
\<close>

theorem collector_stops_at_the_limit:
  assumes "\<And>i off. net i (prepare ''users.getSubscriptions'' token
                     (subscriptions_params user_id off) False None)
                   = response (listing_page 650 (nat off))"
  shows "(\<exists>r w'. subscriptions_try net token service_token user_id 300 ui w = Some (r, w')
            \<and> calls w' = calls w @
                 [prepare ''users.getSubscriptions'' token (subscriptions_params user_id 0) False None,
                  prepare ''users.getSubscriptions'' token (subscriptions_params user_id 200) False None,
                  prepare ''groups.getById'' token (groups_params (item_ids 0 300)) True
                    (Some service_token)])
       \<and> length (item_ids 0 300) = 300
       \<and> (api net' ''users.getSubscriptions'' token' (subscriptions_params user_id' off) w0 =
              (Inr (JObj d), w1)
            \<and> py_iter (dict_get d ''items'' (JList [])) = Inr its
            \<and> collect_ids its = Inr ids
          \<longrightarrow> paging net' token' user_id' lim off acc cnt w0 =
               (if length its < 200 \<or> lim \<le> int (length (acc @ ids))
                then Some (Inr (acc @ ids, dict_get d ''count'' (JInt 0)), w1)
                else paging net' token' user_id' lim (off + 200) (acc @ ids)
                       (dict_get d ''count'' (JInt 0)) w1))
       \<and> ((\<forall>i off. net' i (prepare ''users.getSubscriptions'' token'
                          (subscriptions_params user_id' off) False None)
                      = response (listing_page tot (nat off)))
            \<and> (\<forall>i<p. 200 * (i + 1) \<le> tot \<and> int (200 * (i + 1)) < lim)
            \<and> 200 * p \<le> tot
            \<and> (tot < 200 * p + 200 \<or> lim \<le> int (min tot (200 * p + 200)))
          \<longrightarrow> paging net' token' user_id' lim 0 [] (JInt 0) w0 =
                Some (Inr (item_ids 0 (min tot (200 * p + 200)), JInt (int tot)),
                      w0\<lparr>calls := calls w0 @ map (sub_request token' user_id') [0 ..< Suc p],
                         sent := sent w0 @ map (sub_request token' user_id') [0 ..< Suc p]\<rparr>))"
proof -
  define wp where "wp = w\<lparr>calls := calls w @ map (sub_request token user_id) [0 ..< Suc 1],
                sent := sent w @ map (sub_request token user_id) [0 ..< Suc 1]\<rparr>"
  define ids0 where "ids0 = item_ids 0 (min 650 (200 * 1 + 200))"
  have pg: "paging net token user_id 300 0 [] (JInt 0) w = Some (Inr (ids0, JInt (int 650)), wp)"
    unfolding wp_def ids0_def by (rule paging_listing_result[OF assms]) simp_all
  have c1: "calls wp = calls w @
       [prepare ''users.getSubscriptions'' token (subscriptions_params user_id 0) False None,
        prepare ''users.getSubscriptions'' token (subscriptions_params user_id 200) False None]"
    unfolding wp_def by (simp add: sub_request_def upt_rec)
  have tk: "py_take 300 ids0 = item_ids 0 300"
    unfolding ids0_def by (simp add: py_take_def take_item_ids)
  have ch: "group_chunks (item_ids 0 300) = [item_ids 0 300]"
    by (rule group_chunks_single) simp_all
  have "length (item_ids 0 300) \<noteq> 0" by simp
  then have ne: "item_ids 0 300 \<noteq> []" by (simp del: length_item_ids)
  obtain r2 w2 where rc: "resolve_chunks net token service_token (uid ui) [item_ids 0 300] wp
                            = (r2, w2)"
    by (cases "resolve_chunks net token service_token (uid ui) [item_ids 0 300] wp")
  note c2 = resolve_single_chunk_calls[OF rc]
  have "subscriptions_try net token service_token user_id 300 ui w =
          Some (case r2 of Some e \<Rightarrow> Inl e | None \<Rightarrow> Inr (JInt 650), w2)"
    unfolding subscriptions_try_def pg
    using ne by (simp add: tk ch rc Let_def del: resolve_chunks.simps split: option.splits)
  then have b: "\<exists>r w'. subscriptions_try net token service_token user_id 300 ui w = Some (r, w')
            \<and> calls w' = calls w @
                 [prepare ''users.getSubscriptions'' token (subscriptions_params user_id 0) False None,
                  prepare ''users.getSubscriptions'' token (subscriptions_params user_id 200) False None,
                  prepare ''groups.getById'' token (groups_params (item_ids 0 300)) True
                    (Some service_token)]"
    using c2 c1 by simp
  have l: "length (item_ids 0 300) = 300" by simp
  have a: "api net' ''users.getSubscriptions'' token' (subscriptions_params user_id' off) w0 =
              (Inr (JObj d), w1)
            \<and> py_iter (dict_get d ''items'' (JList [])) = Inr its
            \<and> collect_ids its = Inr ids
          \<longrightarrow> paging net' token' user_id' lim off acc cnt w0 =
               (if length its < 200 \<or> lim \<le> int (length (acc @ ids))
                then Some (Inr (acc @ ids, dict_get d ''count'' (JInt 0)), w1)
                else paging net' token' user_id' lim (off + 200) (acc @ ids)
                       (dict_get d ''count'' (JInt 0)) w1)"
    using paging_stop_rule[of net' token' user_id' off w0 d w1 its ids lim acc cnt] by blast
  have c: "paging net' token' user_id' lim 0 [] (JInt 0) w0 =
                Some (Inr (item_ids 0 (min tot (200 * p + 200)), JInt (int tot)),
                      w0\<lparr>calls := calls w0 @ map (sub_request token' user_id') [0 ..< Suc p],
                         sent := sent w0 @ map (sub_request token' user_id') [0 ..< Suc p]\<rparr>)"
    if "\<forall>i off. net' i (prepare ''users.getSubscriptions'' token'
                          (subscriptions_params user_id' off) False None)
                      = response (listing_page tot (nat off))"
       "\<forall>i<p. 200 * (i + 1) \<le> tot \<and> int (200 * (i + 1)) < lim"
       "200 * p \<le> tot"
       "tot < 200 * p + 200 \<or> lim \<le> int (min tot (200 * p + 200))"
    by (rule paging_listing_result) (use that in auto)
  show ?thesis
    using b l a c by blast
qed

lemma subscriber_server_serves:
  "subscriber_server tot friends_of i (prepare ''users.getSubscriptions'' token
                     (subscriptions_params user_id off) False None)
                   = response (listing_page tot (nat off))"
  by (simp add: subscriber_server_def listing_server_serves)

lemma api_listing:
  assumes "\<And>i off. net i (prepare ''users.getSubscriptions'' token
                     (subscriptions_params user_id off) False None)
                   = response (listing_page tot (nat off))"
  shows "api net ''users.getSubscriptions'' token (subscriptions_params user_id off) w =
     (Inr (JObj [(''count'', JInt (int tot)),
                 (''items'', JList (map public_item [nat off ..< min tot (nat off + 200)]))]),
      w\<lparr>calls := calls w @ [prepare ''users.getSubscriptions'' token
                               (subscriptions_params user_id off) False None],
        sent := sent w @ [prepare ''users.getSubscriptions'' token
                               (subscriptions_params user_id off) False None]\<rparr>)"
  unfolding api_def listing_page_def[symmetric]
  by (rule vk_api_request_first_ok) (simp_all add: assms)

theorem collector_stops_at_the_limit_witness:
  "(\<exists>r w'. subscriptions_try (subscriber_server 650 (\<lambda>u. [])) ''t'' ''s'' (JInt 1) 300
              \<lparr>uid = JInt 1, screen_name = JStr ''a'', name = ''A B'', sex = JInt 1,
               home_town = JStr ''X'', is_private = JBool False, friends_count = None,
               subscriptions_count = None\<rparr> world0 = Some (r, w')
          \<and> calls w' =
               [prepare ''users.getSubscriptions'' ''t'' (subscriptions_params (JInt 1) 0) False None,
                prepare ''users.getSubscriptions'' ''t'' (subscriptions_params (JInt 1) 200) False None,
                prepare ''groups.getById'' ''t'' (groups_params (item_ids 0 300)) True (Some ''s'')])
   \<and> paging (listing_server 650) ''t'' (JInt 1) 1000 600 (item_ids 0 600) (JInt 650) world0 =
       Some (Inr (item_ids 0 600 @ item_ids 600 650, JInt 650),
             world0\<lparr>calls := [prepare ''users.getSubscriptions'' ''t''
                                 (subscriptions_params (JInt 1) 600) False None],
                    sent := [prepare ''users.getSubscriptions'' ''t''
                                 (subscriptions_params (JInt 1) 600) False None]\<rparr>)
   \<and> paging (listing_server 650) ''t'' (JInt 1) 1000 0 [] (JInt 0) world0 =
       Some (Inr (item_ids 0 650, JInt 650),
             world0\<lparr>calls := map (sub_request ''t'' (JInt 1)) [0 ..< 4],
                    sent := map (sub_request ''t'' (JInt 1)) [0 ..< 4]\<rparr>)"
proof -
  let ?d = "[(''count'', JInt (int 650)),
             (''items'', JList (map public_item [nat 600 ..< min 650 (nat 600 + 200)]))]"
  let ?w1 = "world0\<lparr>calls := calls world0 @ [prepare ''users.getSubscriptions'' ''t''
                                 (subscriptions_params (JInt 1) 600) False None],
                    sent := sent world0 @ [prepare ''users.getSubscriptions'' ''t''
                                 (subscriptions_params (JInt 1) 600) False None]\<rparr>"
  have h1: "api (listing_server 650) ''users.getSubscriptions'' ''t''
              (subscriptions_params (JInt 1) 600) world0 = (Inr (JObj ?d), ?w1)"
    by (rule api_listing[OF listing_server_serves])
  have r: "[nat 600 ..< min 650 (nat 600 + 200)] = [600 ..< 650]"
    by (simp del: upt_rec_numeral)
  have h2: "py_iter (dict_get ?d ''items'' (JList [])) = Inr (map public_item [600 ..< 650])"
    unfolding r by (simp add: dict_get_def del: upt_rec_numeral)
  have h3: "collect_ids (map public_item [600 ..< 650]) = Inr (item_ids 600 650)"
    unfolding item_ids_def by (rule collect_ids_public)
  have l: "length (map public_item [600 ..< 650::nat]) = 50"
    by (simp del: upt_rec_numeral)
  have c: "dict_get ?d ''count'' (JInt 0) = JInt 650"
    by (simp add: dict_get_def del: upt_rec_numeral)
  have w: "?w1 = world0\<lparr>calls := [prepare ''users.getSubscriptions'' ''t''
                                 (subscriptions_params (JInt 1) 600) False None],
                    sent := [prepare ''users.getSubscriptions'' ''t''
                                 (subscriptions_params (JInt 1) 600) False None]\<rparr>"
    by (simp add: world0_def)
  have i: "calls world0 = []" by (simp add: world0_def)
  note t = collector_stops_at_the_limit[of "subscriber_server 650 (\<lambda>u. [])" "''t''" "JInt 1"
             "''s''" "\<lparr>uid = JInt 1, screen_name = JStr ''a'', name = ''A B'', sex = JInt 1,
               home_town = JStr ''X'', is_private = JBool False, friends_count = None,
               subscriptions_count = None\<rparr>" world0
             "listing_server 650" "''t''" "JInt 1" 600 world0 ?d ?w1
             "map public_item [600 ..< 650]" "item_ids 600 650" 1000 "item_ids 0 600" "JInt 650"
             650 3,
             OF subscriber_server_serves]
  from t have a: "\<exists>r w'. subscriptions_try (subscriber_server 650 (\<lambda>u. [])) ''t'' ''s'' (JInt 1) 300
              \<lparr>uid = JInt 1, screen_name = JStr ''a'', name = ''A B'', sex = JInt 1,
               home_town = JStr ''X'', is_private = JBool False, friends_count = None,
               subscriptions_count = None\<rparr> world0 = Some (r, w')
          \<and> calls w' =
               [prepare ''users.getSubscriptions'' ''t'' (subscriptions_params (JInt 1) 0) False None,
                prepare ''users.getSubscriptions'' ''t'' (subscriptions_params (JInt 1) 200) False None,
                prepare ''groups.getById'' ''t'' (groups_params (item_ids 0 300)) True (Some ''s'')]"
    unfolding i by simp
  from t have "paging (listing_server 650) ''t'' (JInt 1) 1000 600 (item_ids 0 600) (JInt 650) world0 =
       (if length (map public_item [600 ..< 650::nat]) < 200
            \<or> 1000 \<le> int (length (item_ids 0 600 @ item_ids 600 650))
        then Some (Inr (item_ids 0 600 @ item_ids 600 650, dict_get ?d ''count'' (JInt 0)), ?w1)
        else paging (listing_server 650) ''t'' (JInt 1) 1000 (600 + 200)
               (item_ids 0 600 @ item_ids 600 650) (dict_get ?d ''count'' (JInt 0)) ?w1)"
    using h1 h2 h3 by blast
  then have b: "paging (listing_server 650) ''t'' (JInt 1) 1000 600 (item_ids 0 600) (JInt 650) world0 =
      Some (Inr (item_ids 0 600 @ item_ids 600 650, JInt 650), ?w1)"
    unfolding l c by simp
  have h4: "\<forall>i off. listing_server 650 i (prepare ''users.getSubscriptions'' ''t''
                          (subscriptions_params (JInt 1) off) False None)
                      = response (listing_page 650 (nat off))"
    by (simp add: listing_server_serves)
  have h5: "\<forall>i<3. 200 * (i + 1) \<le> (650::nat) \<and> int (200 * (i + 1)) < 1000"
    by auto
  have h6: "200 * 3 \<le> (650::nat)" "(650::nat) < 200 * 3 + 200 \<or> 1000 \<le> int (min 650 (200 * 3 + 200))"
    by simp_all
  from t h4 h5 h6
  have "paging (listing_server 650) ''t'' (JInt 1) 1000 0 [] (JInt 0) world0 =
                Some (Inr (item_ids 0 (min 650 (200 * 3 + 200)), JInt (int 650)),
                      world0\<lparr>calls := calls world0 @ map (sub_request ''t'' (JInt 1)) [0 ..< Suc 3],
                         sent := sent world0 @ map (sub_request ''t'' (JInt 1)) [0 ..< Suc 3]\<rparr>)"
    by blast
  moreover have "min 650 (200 * 3 + 200) = (650::nat)" "Suc 3 = 4" "int 650 = 650"
       "calls world0 = []" "sent world0 = []"
    by (simp_all add: world0_def)
  ultimately have c: "paging (listing_server 650) ''t'' (JInt 1) 1000 0 [] (JInt 0) world0 =
       Some (Inr (item_ids 0 650, JInt 650),
             world0\<lparr>calls := map (sub_request ''t'' (JInt 1)) [0 ..< 4],
                    sent := map (sub_request ''t'' (JInt 1)) [0 ..< 4]\<rparr>)"
    by (simp only: append_Nil)
  show ?thesis using a b c unfolding w by blast
qed

text \<open>The lookup loop makes one call per chunk, in chunk order, until a call or a record of
  a reply raises: all of them when it ends without an exception.\<close>

lemma resolve_chunks_calls:
  assumes "resolve_chunks net token service_token me chunks w = (r, w')"
  shows "\<exists>k. k \<le> length chunks \<and> (chunks \<noteq> [] \<longrightarrow> 0 < k)
            \<and> calls w' = calls w @ map (\<lambda>c. prepare ''groups.getById'' token (groups_params c)
                                                True (Some service_token)) (take k chunks)
            \<and> (r = None \<longrightarrow> k = length chunks)"
  using assms
proof (induction chunks arbitrary: w)
  case Nil
  then show ?case by simp
next
  case (Cons c chunks)
  let ?P = "\<lambda>c. prepare ''groups.getById'' token (groups_params c) True (Some service_token)"
  obtain res w1 where a: "vk_api_request net ''groups.getById'' token (groups_params c) 3 2 True
             (Some service_token) w = (res, w1)"
    by (cases "vk_api_request net ''groups.getById'' token (groups_params c) 3 2 True
             (Some service_token) w")
  from vk_api_request_history[OF a]
  have c1: "calls w1 = calls w @ [?P c]"
    by auto
  have stop: ?case if "r \<noteq> None" "calls w' = calls w1"
  proof -
    have "calls w' = calls w @ map ?P (take 1 (c # chunks))" using that c1 by simp
    then show ?thesis using that(1) by (intro exI[of _ 1]) auto
  qed
  have go: ?case if "resolve_chunks net token service_token me chunks w2 = (r, w')"
                    "calls w2 = calls w1" for w2
  proof -
    from Cons.IH[OF that(1)] obtain k where k: "k \<le> length chunks"
        "calls w' = calls w2 @ map ?P (take k chunks)" "r = None \<longrightarrow> k = length chunks"
      by blast
    have "calls w' = calls w @ map ?P (take (Suc k) (c # chunks))"
      using k(2) that(2) c1 by simp
    then show ?thesis using k(1,3) by (intro exI[of _ "Suc k"]) simp
  qed
  show ?case
  proof (cases res)
    case (Inl e)
    then have "r = Some e" "w' = w1" using Cons.prems a by simp_all
    then show ?thesis using stop by simp
  next
    case (Inr v)
    show ?thesis
    proof (cases "\<exists>gs. v = JList gs")
      case False
      then have "resolve_chunks net token service_token me chunks w1 = (r, w')"
        using Cons.prems a Inr by (cases v) simp_all
      then show ?thesis using go by simp
    next
      case True
      then obtain gs where v: "v = JList gs" by blast
      obtain r2 w2 where s: "store_groups me gs w1 = (r2, w2)"
        by (cases "store_groups me gs w1")
      have f: "calls w2 = calls w1" using store_groups_frame[OF s] by simp
      show ?thesis
      proof (cases r2)
        case None
        then have "resolve_chunks net token service_token me chunks w2 = (r, w')"
          using Cons.prems a Inr v s by simp
        then show ?thesis using go f by simp
      next
        case (Some e)
        then have "r = Some e" "w' = w2" using Cons.prems a Inr v s by simp_all
        then show ?thesis using stop f by simp
      qed
    qed
  qed
qed

lemma resolve_chunks_answered:
  assumes "\<And>c w0. \<exists>gs w0'. vk_api_request net ''groups.getById'' token (groups_params c) 3 2
                               True (Some service_token) w0 = (Inr (JList gs), w0')
                           \<and> (\<forall>g \<in> set gs. \<exists>gd. read_group g = Inr gd)"
  shows "\<exists>w'. resolve_chunks net token service_token me chunks w = (None, w')"
proof (induction chunks arbitrary: w)
  case Nil
  then show ?case by simp
next
  case (Cons c chunks)
  obtain gs w1 where a: "vk_api_request net ''groups.getById'' token (groups_params c) 3 2
                               True (Some service_token) w = (Inr (JList gs), w1)"
      and g: "\<forall>g \<in> set gs. \<exists>gd. read_group g = Inr gd"
    using assms[of c w] by blast
  obtain w2 where w2: "store_groups me gs w1 = (None, w2)"
    using store_groups_ok[of gs me w1] g by blast
  obtain w3 where w3: "resolve_chunks net token service_token me chunks w2 = (None, w3)"
    using Cons.IH[of w2] by blast
  show ?case using a w2 w3 by simp
qed

text \<open>
  C8 (as amended). When the paging has ended with a list of which the slice of line 235
  keeps 1200 group ids, and the service token is a non-empty string: line 239 cuts the 1200
  ids into three chunks of 500, 500 and 200 ids, whose concatenation is the list itself;
  the collector returns, and the calls it has made after the paging are \<^verbatim>\<open>groups.getById\<close>
  calls for the first \<open>k\<close> chunks, in chunk order, one per chunk, each with the service token
  as its access token, where \<open>k\<close> is 1, 2 or 3, and is 3 when the block ends without an
  exception, its value then being the reported count. It ends without an exception
  whenever every lookup is answered by a list of group records that have an \<open>id\<close>.
\<close>

theorem collector_makes_one_lookup_per_chunk:
  assumes pg: "paging net token user_id lim 0 [] (JInt 0) w = Some (Inr (ids, cnt), w1)"
      and len: "length (py_take lim ids) = 1200"
      and tok: "service_token \<noteq> []"
  shows "map length (group_chunks (py_take lim ids)) = [500, 500, 200]
       \<and> concat (group_chunks (py_take lim ids)) = py_take lim ids
       \<and> (\<exists>r w' k. subscriptions_try net token service_token user_id lim ui w = Some (r, w')
             \<and> 1 \<le> k \<and> k \<le> 3
             \<and> calls w' = calls w1 @
                   map (groups_request service_token) (take k (group_chunks (py_take lim ids)))
             \<and> (\<forall>c. r = Inr c \<longrightarrow> k = 3 \<and> c = cnt))
       \<and> ((\<forall>c w0. \<exists>gs w0'. vk_api_request net ''groups.getById'' token (groups_params c) 3 2
                               True (Some service_token) w0 = (Inr (JList gs), w0')
                           \<and> (\<forall>g \<in> set gs. \<exists>gd. read_group g = Inr gd))
            \<longrightarrow> (\<exists>w'. subscriptions_try net token service_token user_id lim ui w
                          = Some (Inr cnt, w')))"
proof -
  let ?ids = "py_take lim ids"
  let ?P = "\<lambda>c. prepare ''groups.getById'' token (groups_params c) True (Some service_token)"
  have P: "?P = groups_request service_token"
    by (rule ext) (simp add: prepare_groups_service[OF tok] groups_request_def)
  have a: "map length (group_chunks ?ids) = [500, 500, 200]"
    using len by (simp add: group_chunks_1200)
  have l3: "length (group_chunks ?ids) = 3"
    using arg_cong[OF a, of length] by simp
  have ne: "?ids \<noteq> []" using len by auto
  have ne2: "group_chunks ?ids \<noteq> []" using l3 by auto
  have st: "subscriptions_try net token service_token user_id lim ui w =
          (case resolve_chunks net token service_token (uid ui) (group_chunks ?ids) w1 of
              (Some e, w2) \<Rightarrow> Some (Inl e, w2)
            | (None, w2) \<Rightarrow> Some (Inr cnt, w2))"
    unfolding subscriptions_try_def pg using ne by (simp add: Let_def)
  obtain r2 w2 where rc: "resolve_chunks net token service_token (uid ui) (group_chunks ?ids) w1
                            = (r2, w2)"
    by (cases "resolve_chunks net token service_token (uid ui) (group_chunks ?ids) w1")
  from resolve_chunks_calls[OF rc] obtain k where k: "k \<le> 3" "0 < k"
      "calls w2 = calls w1 @ map ?P (take k (group_chunks ?ids))" "r2 = None \<longrightarrow> k = 3"
    using l3 ne2 by auto
  have b: "\<exists>r w' k. subscriptions_try net token service_token user_id lim ui w = Some (r, w')
             \<and> 1 \<le> k \<and> k \<le> 3
             \<and> calls w' = calls w1 @
                   map (groups_request service_token) (take k (group_chunks ?ids))
             \<and> (\<forall>c. r = Inr c \<longrightarrow> k = 3 \<and> c = cnt)"
  proof (cases r2)
    case None
    then have "subscriptions_try net token service_token user_id lim ui w = Some (Inr cnt, w2)"
      using st rc by simp
    then show ?thesis using k None unfolding P
      by (intro exI[of _ "Inr cnt"] exI[of _ w2] exI[of _ k]) simp
  next
    case (Some e)
    then have "subscriptions_try net token service_token user_id lim ui w = Some (Inl e, w2)"
      using st rc by simp
    then show ?thesis using k unfolding P
      by (intro exI[of _ "Inl e"] exI[of _ w2] exI[of _ k]) simp
  qed
  have c: "\<exists>w'. subscriptions_try net token service_token user_id lim ui w = Some (Inr cnt, w')"
    if "\<forall>c w0. \<exists>gs w0'. vk_api_request net ''groups.getById'' token (groups_params c) 3 2
                               True (Some service_token) w0 = (Inr (JList gs), w0')
                           \<and> (\<forall>g \<in> set gs. \<exists>gd. read_group g = Inr gd)"
  proof -
    have "\<exists>w'. resolve_chunks net token service_token (uid ui) (group_chunks ?ids) w1 = (None, w')"
      by (rule resolve_chunks_answered) (use that in blast)
    then show ?thesis using st by auto
  qed
  show ?thesis using a concat_group_chunks[of ?ids] b c by blast
qed

lemma paging_listing_1200:
  assumes "\<And>i off. net i (prepare ''users.getSubscriptions'' token
                     (subscriptions_params user_id off) False None)
                   = response (listing_page 1200 (nat off))"
  shows "paging net token user_id 1200 0 [] (JInt 0) w =
         Some (Inr (item_ids 0 1200, JInt 1200),
               w\<lparr>calls := calls w @ map (sub_request token user_id) [0 ..< 6],
                  sent := sent w @ map (sub_request token user_id) [0 ..< 6]\<rparr>)"
proof -
  have "paging net token user_id 1200 0 [] (JInt 0) w =
         Some (Inr (item_ids 0 (min 1200 (200 * 5 + 200)), JInt (int 1200)),
               w\<lparr>calls := calls w @ map (sub_request token user_id) [0 ..< Suc 5],
                  sent := sent w @ map (sub_request token user_id) [0 ..< Suc 5]\<rparr>)"
    by (rule paging_listing_result[OF assms]) simp_all
  moreover have "min 1200 (200 * 5 + 200) = (1200::nat)" "Suc 5 = 6" "int 1200 = 1200"
    by simp_all
  ultimately show ?thesis by (simp only:)
qed

theorem collector_makes_one_lookup_per_chunk_witness:
  "map length (group_chunks (item_ids 0 1200)) = [500, 500, 200]
   \<and> (\<exists>w'. subscriptions_try (subscriber_server 1200 (\<lambda>u. [])) ''t'' ''s'' (JInt 1) 1200
              \<lparr>uid = JInt 1, screen_name = JStr ''a'', name = ''A B'', sex = JInt 1,
               home_town = JStr ''X'', is_private = JBool False, friends_count = None,
               subscriptions_count = None\<rparr> world0 = Some (Inr (JInt 1200), w')
          \<and> calls w' = map (sub_request ''t'' (JInt 1)) [0 ..< 6] @
                        map (groups_request ''s'') (group_chunks (item_ids 0 1200)))"
proof -
  let ?net = "subscriber_server 1200 (\<lambda>u. [])"
  let ?ui = "\<lparr>uid = JInt 1, screen_name = JStr ''a'', name = ''A B'', sex = JInt 1,
               home_town = JStr ''X'', is_private = JBool False, friends_count = None,
               subscriptions_count = None\<rparr>"
  let ?w1 = "world0\<lparr>calls := calls world0 @ map (sub_request ''t'' (JInt 1)) [0 ..< 6],
                    sent := sent world0 @ map (sub_request ''t'' (JInt 1)) [0 ..< 6]\<rparr>"
  have pg: "paging ?net ''t'' (JInt 1) 1200 0 [] (JInt 0) world0 =
              Some (Inr (item_ids 0 1200, JInt 1200), ?w1)"
    by (rule paging_listing_1200[OF subscriber_server_serves])
  have tk: "py_take 1200 (item_ids 0 1200) = item_ids 0 1200"
    by (simp add: py_take_def)
  have len: "length (py_take 1200 (item_ids 0 1200)) = 1200"
    unfolding tk by simp
  have tok: "''s'' \<noteq> []" by simp
  have ok: "\<forall>c w0. \<exists>gs w0'. vk_api_request ?net ''groups.getById'' ''t'' (groups_params c) 3 2
                               True (Some ''s'') w0 = (Inr (JList gs), w0')
                           \<and> (\<forall>g \<in> set gs. \<exists>gd. read_group g = Inr gd)"
  proof (intro allI)
    fix c w0
    have "vk_api_request ?net ''groups.getById'' ''t'' (groups_params c) 3 2 True (Some ''s'') w0 =
            (Inr (JList []),
             w0\<lparr>calls := calls w0 @ [prepare ''groups.getById'' ''t'' (groups_params c) True (Some ''s'')],
                sent := sent w0 @ [prepare ''groups.getById'' ''t'' (groups_params c) True (Some ''s'')]\<rparr>)"
      by (rule vk_api_request_first_ok) (simp_all add: subscriber_server_def social_server_def)
    then show "\<exists>gs w0'. vk_api_request ?net ''groups.getById'' ''t'' (groups_params c) 3 2
                               True (Some ''s'') w0 = (Inr (JList gs), w0')
                           \<and> (\<forall>g \<in> set gs. \<exists>gd. read_group g = Inr gd)"
      by simp
  qed
  note t = collector_makes_one_lookup_per_chunk[of ?net "''t''" "JInt 1" 1200 world0
             "item_ids 0 1200" "JInt 1200" ?w1 "''s''" ?ui, OF pg len tok, unfolded tk]
  have m: "map length (group_chunks (item_ids 0 1200)) = [500, 500, 200]"
    using t by (rule conjunct1)
  have l3: "length (group_chunks (item_ids 0 1200)) = 3"
    using arg_cong[OF m, of length] by simp
  from t ok obtain w0 where e: "subscriptions_try ?net ''t'' ''s'' (JInt 1) 1200 ?ui world0
                               = Some (Inr (JInt 1200), w0)"
    by blast
  from t obtain r w' k where
      s: "subscriptions_try ?net ''t'' ''s'' (JInt 1) 1200 ?ui world0 = Some (r, w')"
    and c: "calls w' = calls ?w1 @ map (groups_request ''s'') (take k (group_chunks (item_ids 0 1200)))"
    and k: "\<forall>c. r = Inr c \<longrightarrow> k = 3 \<and> c = JInt 1200"
    by blast
  have r: "r = Inr (JInt 1200)" "w' = w0" using s e by simp_all
  then have "k = 3" using k by simp
  then have "calls w' = map (sub_request ''t'' (JInt 1)) [0 ..< 6] @
                        map (groups_request ''s'') (group_chunks (item_ids 0 1200))"
    using c l3 by (simp add: world0_def del: upt_rec_numeral)
  then show ?thesis using m s r by blast
qed

text \<open>
  C8 as stated has exactly 3 lookup calls for 1200 accumulated ids. On a remote side where
  the listing has 1200 items and every group lookup fails (each of its three attempts), the
  collector accumulates the 1200 ids and makes one lookup call, for the first 500 of them:
  the exception of that call ends the block (line 266).
\<close>

theorem failed_lookup_ends_the_lookups:
  "map_option (map_prod id lookup_calls)
     (subscriptions_try (lookup_outage (subscriber_server 1200 (\<lambda>u. []))) ''t'' ''s'' (JInt 1) 1200
        \<lparr>uid = JInt 1, screen_name = JStr ''a'', name = ''A B'', sex = JInt 1,
         home_town = JStr ''X'', is_private = JBool False, friends_count = None,
         subscriptions_count = None\<rparr> world0)
   = Some (Inl RetriesExhausted, [groups_request ''s'' (item_ids 0 500)])"
proof -
  let ?net = "lookup_outage (subscriber_server 1200 (\<lambda>u. []))"
  let ?w1 = "world0\<lparr>calls := calls world0 @ map (sub_request ''t'' (JInt 1)) [0 ..< 6],
                    sent := sent world0 @ map (sub_request ''t'' (JInt 1)) [0 ..< 6]\<rparr>"
  let ?q = "prepare ''groups.getById'' ''t'' (groups_params (item_ids 0 500)) True (Some ''s'')"
  have srv: "\<And>i off. ?net i (prepare ''users.getSubscriptions'' ''t''
                     (subscriptions_params (JInt 1) off) False None)
                   = response (listing_page 1200 (nat off))"
    by (simp add: lookup_outage_def subscriber_server_serves)
  have pg: "paging ?net ''t'' (JInt 1) 1200 0 [] (JInt 0) world0 =
              Some (Inr (item_ids 0 1200, JInt 1200), ?w1)"
    by (rule paging_listing_1200[OF srv])
  have tk: "py_take 1200 (item_ids 0 1200) = item_ids 0 1200"
    by (simp add: py_take_def)
  have ne: "item_ids 0 1200 \<noteq> []"
    using length_item_ids[of 0 1200] by (auto simp del: length_item_ids)
  have ch: "group_chunks (item_ids 0 1200) =
              [take 500 (item_ids 0 1200), take 500 (drop 500 (item_ids 0 1200)),
               drop 1000 (item_ids 0 1200)]"
    by (rule group_chunks_1200) simp
  have t5: "take 500 (item_ids 0 1200) = item_ids 0 500"
    using take_item_ids[of 0 500 1200] by simp
  have fail: "\<And>i. \<exists>e. attempt (?net i ?q) = Inl e"
    by (simp add: lookup_outage_def)
  have att: "attempts ?net ?q 2 n W =
     (Inl RetriesExhausted, W\<lparr>sent := sent W @ replicate n ?q, slept := slept W @ replicate n 2\<rparr>)"
    for n W
    by (rule attempts_all_fail[where net = ?net and req = ?q]) (use fail in simp_all)
  have a: "vk_api_request ?net ''groups.getById'' ''t'' (groups_params (item_ids 0 500)) 3 2 True
             (Some ''s'') ?w1 =
           (Inl RetriesExhausted,
            ?w1\<lparr>calls := calls ?w1 @ [?q], sent := sent ?w1 @ replicate 3 ?q,
                 slept := slept ?w1 @ replicate 3 2\<rparr>)"
    unfolding vk_api_request_def Let_def
    by (simp add: att del: upt_rec_numeral)
  have q: "?q = groups_request ''s'' (item_ids 0 500)"
    by (simp add: prepare_groups_service groups_request_def)
  have f: "filter (\<lambda>q. meth q = ''groups.getById'') (map (sub_request ''t'' (JInt 1)) xs) = []" for xs
    by (induction xs) (simp_all add: sub_request_def)
  have "subscriptions_try ?net ''t'' ''s'' (JInt 1) 1200
        \<lparr>uid = JInt 1, screen_name = JStr ''a'', name = ''A B'', sex = JInt 1,
         home_town = JStr ''X'', is_private = JBool False, friends_count = None,
         subscriptions_count = None\<rparr> world0
       = Some (Inl RetriesExhausted,
            ?w1\<lparr>calls := calls ?w1 @ [?q], sent := sent ?w1 @ replicate 3 ?q,
                 slept := slept ?w1 @ replicate 3 2\<rparr>)"
    unfolding subscriptions_try_def pg
    using ne by (simp add: tk ch t5 a Let_def del: upt_rec_numeral)
  then show ?thesis
    unfolding q by (simp add: f world0_def groups_request_def lookup_calls_def del: upt_rec_numeral)
qed

section \<open>A failed profile fetch\<close>

lemma get_detailed_data_unfold:
  "get_detailed_data net token service_token user_id depth_limit current_depth friends_limit
       subscriptions_limit w =
     (case key_of user_id of
        None \<Rightarrow> Some (Inl TypeError)
      | Some k \<Rightarrow>
          if k \<in> visited w then Some (Inr w)
          else
            (case get_user_data net token service_token user_id friends_limit subscriptions_limit
                    (w\<lparr>visited := insert k (visited w)\<rparr>) of
               None \<Rightarrow> None
             | Some w1 \<Rightarrow>
                 if current_depth < depth_limit
                 then expand_friends net token service_token user_id depth_limit current_depth
                        friends_limit subscriptions_limit w1
                 else Some (Inr w1)))"
  by (simp add: get_detailed_data.simps expand_friends_def split: option.splits)

lemma get_detailed_data_never_raises:
  assumes "key_of user_id = Some k"
  shows "get_detailed_data net token service_token user_id depth_limit current_depth friends_limit
           subscriptions_limit w \<noteq> Some (Inl e)"
  using assms
  by (auto simp: get_detailed_data_unfold expand_friends_def
       split: option.splits prod.splits sum.splits json.splits)

text \<open>
  C1 (as amended). When the profile fetch of a user fails after the retries,
  \<^verbatim>\<open>get_user_data\<close> returns at once: it has made the one \<^verbatim>\<open>users.get\<close> call, fetched no
  friends and no subscriptions, and written nothing. This is so for the root as for every
  other user, and it ends nothing else: \<^verbatim>\<open>get_detailed_data\<close> ignores the outcome, so below
  the depth limit it goes on to request the friend list of that user and to recurse into
  the friends, and at the limit it returns normally. It raises nothing in either case, so
  the loop of the caller goes on with the next friend.
\<close>

theorem failed_profile_fetch_is_local:
  assumes "key_of user_id = Some k" and "k \<notin> visited w"
      and "api net ''users.get'' token (users_get_params user_id)
             (w\<lparr>visited := insert k (visited w)\<rparr>) = (Inl e, w1)"
  shows "get_user_data net token service_token user_id friends_limit subscriptions_limit
           (w\<lparr>visited := insert k (visited w)\<rparr>) = Some w1
       \<and> calls w1 = calls w @ [prepare ''users.get'' token (users_get_params user_id) False None]
       \<and> db w1 = db w
       \<and> get_detailed_data net token service_token user_id depth_limit current_depth
            friends_limit subscriptions_limit w =
          (if current_depth < depth_limit
           then expand_friends net token service_token user_id depth_limit current_depth
                  friends_limit subscriptions_limit w1
           else Some (Inr w1))
       \<and> (\<forall>x. get_detailed_data net token service_token user_id depth_limit current_depth
                 friends_limit subscriptions_limit w \<noteq> Some (Inl x))"
proof -
  have g: "get_user_data net token service_token user_id friends_limit subscriptions_limit
           (w\<lparr>visited := insert k (visited w)\<rparr>) = Some w1"
    using assms(3) by (simp add: get_user_data_def fetch_profile_def)
  from vk_api_request_history[OF assms(3)[unfolded api_def]]
  have f: "calls w1 = calls w @ [prepare ''users.get'' token (users_get_params user_id) False None]"
    "db w1 = db w"
    by auto
  have d: "get_detailed_data net token service_token user_id depth_limit current_depth
            friends_limit subscriptions_limit w =
          (if current_depth < depth_limit
           then expand_friends net token service_token user_id depth_limit current_depth
                  friends_limit subscriptions_limit w1
           else Some (Inr w1))"
    using assms(1,2) g by (simp add: get_detailed_data_unfold)
  show ?thesis
    using g f d get_detailed_data_never_raises[OF assms(1)] by blast
qed

theorem failed_profile_fetch_is_local_witness:
  "get_detailed_data (profile_outage 1 (social_server two_levels)) ''t'' ''s'' (JInt 1) 2 1 100 300
       world0 =
     expand_friends (profile_outage 1 (social_server two_levels)) ''t'' ''s'' (JInt 1) 2 1 100 300
       (world0\<lparr>visited := {KInt 1},
               calls := [prepare ''users.get'' ''t'' (users_get_params (JInt 1)) False None],
               sent := replicate 3 (prepare ''users.get'' ''t'' (users_get_params (JInt 1)) False None),
               slept := [2, 2, 2]\<rparr>)"
proof -
  let ?net = "profile_outage 1 (social_server two_levels)"
  let ?r = "prepare ''users.get'' ''t'' (users_get_params (JInt 1)) False None"
  have k: "key_of (JInt 1) = Some (KInt 1)" by simp
  have v: "KInt 1 \<notin> visited world0" by (simp add: world0_def)
  have a: "api ?net ''users.get'' ''t'' (users_get_params (JInt 1))
             (world0\<lparr>visited := insert (KInt 1) (visited world0)\<rparr>) =
           (Inl RetriesExhausted,
            world0\<lparr>visited := {KInt 1}, calls := [?r], sent := replicate 3 ?r, slept := [2, 2, 2]\<rparr>)"
    by (simp add: api_def vk_api_request_def world0_def Let_def numeral_3_eq_3
          profile_outage_def prepare_def users_get_params_def account_of_def)
  from failed_profile_fetch_is_local[OF k v a, of "''s''" 100 300 2 1]
  show ?thesis by simp
qed

text \<open>
  C1 as stated has the whole run abort when the profile fetch of the root fails. On a
  network where every \<^verbatim>\<open>users.get\<close> for the root (account 1) fails, a run with
  \<^verbatim>\<open>depth_limit = 2\<close> goes on after the failed fetch: it requests the friend list of the
  root and then fetches profile, friends and subscriptions of the friends 2 and 4.
\<close>

theorem run_goes_on_after_root_profile_failure:
  "map_option (\<lambda>w. map (\<lambda>r. (meth r, map_of (params r) ''user_ids'', map_of (params r) ''user_id''))
                       (calls w))
     (final_world (get_detailed_data (profile_outage 1 (social_server two_levels)) ''t'' ''s''
                     (JInt 1) 2 1 100 300 world0))
   = Some [(''users.get'', Some (JInt 1), None),
           (''friends.get'', None, Some (JInt 1)),
           (''users.get'', Some (JInt 2), None),
           (''friends.get'', None, Some (JInt 2)),
           (''users.getSubscriptions'', None, Some (JInt 2)),
           (''users.get'', Some (JInt 4), None),
           (''friends.get'', None, Some (JInt 4)),
           (''users.getSubscriptions'', None, Some (JInt 4))]"
  by code_simp

section \<open>The visited set\<close>

lemma store_friends_frame:
  assumes "store_friends me fs w = (b, w')"
  shows "calls w' = calls w \<and> sent w' = sent w \<and> visited w' = visited w"
  using assms
proof (induction fs arbitrary: w)
  case Nil
  then show ?case by simp
next
  case (Cons friend rest)
  show ?case
  proof (cases "process_profile friend")
    case (Inl e)
    then show ?thesis using Cons.prems by simp
  next
    case (Inr fp)
    show ?thesis
    proof (cases "truthy (is_private fp)")
      case True
      then have "store_friends me rest w = (b, w')" using Cons.prems Inr by simp
      from Cons.IH[OF this] show ?thesis .
    next
      case False
      then have "store_friends me rest
          (w\<lparr>db := db w @ [CreateUser fp, CreateFriendship me (uid fp)]\<rparr>) = (b, w')"
        using Cons.prems Inr by simp
      from Cons.IH[OF this] show ?thesis by simp
    qed
  qed
qed

lemma friends_block_frame:
  assumes "friends_block net token user_id friends_limit ui w = (fc, w')"
  shows "calls w' = calls w @ [prepare ''friends.get'' token
                                (friends_get_params user_id friends_limit) False None]
         \<and> visited w' = visited w"
proof -
  obtain r w1 where a: "api net ''friends.get'' token (friends_get_params user_id friends_limit) w
                          = (r, w1)"
    by (cases "api net ''friends.get'' token (friends_get_params user_id friends_limit) w")
  from vk_api_request_history[OF a[unfolded api_def]]
  have f: "calls w1 = calls w @ [prepare ''friends.get'' token
                                  (friends_get_params user_id friends_limit) False None]"
    "visited w1 = visited w"
    by auto
  have "w' = w1 \<or> (\<exists>me fs b. store_friends me fs w1 = (b, w'))"
    using assms a
    by (auto simp: friends_block_def Let_def
          split: sum.splits json.splits prod.splits bool.splits)
  then show ?thesis
    using f store_friends_frame by metis
qed

lemma subscriptions_block_frame:
  assumes "subscriptions_block net token service_token user_id lim ui w = Some (c, w')"
  shows "\<exists>cs. calls w' = calls w @ cs
           \<and> (\<forall>c \<in> set cs. meth c = ''users.getSubscriptions'' \<or> meth c = ''groups.getById'')
           \<and> visited w' = visited w"
proof -
  obtain r where "subscriptions_try net token service_token user_id lim ui w = Some (r, w')"
    using assms by (auto simp: subscriptions_block_def split: option.splits sum.splits)
  from subscriptions_try_history[OF this] show ?thesis by blast
qed

lemma get_user_data_frame:
  assumes "get_user_data net token service_token user_id friends_limit subscriptions_limit w = Some w'"
  shows "visited w' = visited w
       \<and> (\<exists>fr cs. calls w' = calls w
                 @ [prepare ''users.get'' token (users_get_params user_id) False None] @ fr @ cs
              \<and> (fr = [] \<or> fr = [prepare ''friends.get'' token
                                      (friends_get_params user_id friends_limit) False None])
              \<and> (\<forall>c \<in> set cs. meth c = ''users.getSubscriptions'' \<or> meth c = ''groups.getById''))"
proof -
  let ?u = "prepare ''users.get'' token (users_get_params user_id) False None"
  let ?f = "prepare ''friends.get'' token (friends_get_params user_id friends_limit) False None"
  obtain r w1 where p: "fetch_profile net token user_id w = (r, w1)"
    by (cases "fetch_profile net token user_id w")
  obtain r0 where a: "api net ''users.get'' token (users_get_params user_id) w = (r0, w1)"
    using p by (auto simp: fetch_profile_def split: prod.splits sum.splits)
  from vk_api_request_history[OF a[unfolded api_def]]
  have f1: "calls w1 = calls w @ [?u]" "visited w1 = visited w"
    by auto
  show ?thesis
  proof (cases r)
    case (Inl e)
    then have "w' = w1" using assms p by (simp add: get_user_data_def)
    then show ?thesis using f1 by (intro conjI exI[of _ "[]"]) simp_all
  next
    case (Inr ui)
    obtain fc w2 where fb: "friends_block net token user_id friends_limit ui w1 = (fc, w2)"
      by (cases "friends_block net token user_id friends_limit ui w1")
    note f2 = friends_block_frame[OF fb]
    obtain sc w3 where sb: "subscriptions_block net token service_token user_id
                              subscriptions_limit ui w2 = Some (sc, w3)"
      and w': "w' = w3\<lparr>db := db w3 @ [CreateUser (ui\<lparr>friends_count := Some (JInt fc),
                                                   subscriptions_count := Some sc\<rparr>)]\<rparr>"
      using assms p Inr fb by (auto simp: get_user_data_def split: option.splits)
    from subscriptions_block_frame[OF sb] obtain cs where f3:
      "calls w3 = calls w2 @ cs"
      "\<forall>c \<in> set cs. meth c = ''users.getSubscriptions'' \<or> meth c = ''groups.getById''"
      "visited w3 = visited w2"
      by blast
    show ?thesis
      using f1 f2 f3 w' by (intro conjI exI[of _ "[?f]"] exI[of _ cs]) simp_all
  qed
qed

lemma asks_about_users_get [simp]:
  "asks_about ''users.get'' ''user_ids'' k
     (prepare ''users.get'' token (users_get_params user_id) u s) = (key_of user_id = Some k)"
  by (simp add: asks_about_def prepare_def users_get_params_def)

lemma asks_about_friends_get [simp]:
  "asks_about ''friends.get'' ''user_id'' k
     (prepare ''friends.get'' token (friends_get_params user_id fl) u s) = (key_of user_id = Some k)"
  by (simp add: asks_about_def prepare_def friends_get_params_def)

lemma asks_about_other_method [simp]: "meth r \<noteq> m \<Longrightarrow> \<not> asks_about m p k r"
  by (simp add: asks_about_def)

lemma filter_asks_about_other:
  assumes "\<forall>c \<in> set cs. meth c = ''users.getSubscriptions'' \<or> meth c = ''groups.getById''"
  shows "filter (asks_about ''users.get'' p k) cs = []"
    and "filter (asks_about ''friends.get'' p k) cs = []"
  using assms by (auto simp: filter_empty_conv asks_about_def)

lemma get_user_data_counts:
  assumes "get_user_data net token service_token user_id friends_limit subscriptions_limit w = Some w'"
  shows "visited w' = visited w"
    and "profile_fetches k w' = profile_fetches k w + (if key_of user_id = Some k then 1 else 0)"
    and "friend_list_fetches k w' \<le>
           friend_list_fetches k w + (if key_of user_id = Some k then 1 else 0)"
proof -
  from get_user_data_frame[OF assms] obtain fr cs where f:
    "visited w' = visited w"
    "calls w' = calls w @ [prepare ''users.get'' token (users_get_params user_id) False None] @ fr @ cs"
    "fr = [] \<or> fr = [prepare ''friends.get'' token (friends_get_params user_id friends_limit) False None]"
    "\<forall>c \<in> set cs. meth c = ''users.getSubscriptions'' \<or> meth c = ''groups.getById''"
    by blast
  show "visited w' = visited w" by (rule f(1))
  show "profile_fetches k w' = profile_fetches k w + (if key_of user_id = Some k then 1 else 0)"
    using f(3) by (auto simp: profile_fetches_def f(2) filter_asks_about_other[OF f(4)])
  show "friend_list_fetches k w' \<le>
           friend_list_fetches k w + (if key_of user_id = Some k then 1 else 0)"
    using f(3) by (auto simp: friend_list_fetches_def f(2) filter_asks_about_other[OF f(4)])
qed

lemma api_friends_counts:
  assumes "api net ''friends.get'' token (friends_get_params user_id fl) w = (r, w')"
  shows "visited w' = visited w"
    and "profile_fetches k w' = profile_fetches k w"
    and "friend_list_fetches k w' =
           friend_list_fetches k w + (if key_of user_id = Some k then 1 else 0)"
proof -
  from vk_api_request_history[OF assms[unfolded api_def]]
  have f: "calls w' = calls w @ [prepare ''friends.get'' token (friends_get_params user_id fl) False None]"
    "visited w' = visited w"
    by auto
  show "visited w' = visited w" by (rule f(2))
  show "profile_fetches k w' = profile_fetches k w"
    by (simp add: profile_fetches_def f(1))
  show "friend_list_fetches k w' =
           friend_list_fetches k w + (if key_of user_id = Some k then 1 else 0)"
    by (simp add: friend_list_fetches_def f(1))
qed


lemma visit_keeps_each_user_once:
  assumes inv: "each_user_once w" and k: "key_of user_id = Some k" and nv: "k \<notin> visited w"
      and g: "get_user_data net token service_token user_id friends_limit subscriptions_limit
                (w\<lparr>visited := insert k (visited w)\<rparr>) = Some w1"
  shows "each_user_once w1" and "visited w1 = insert k (visited w)"
    and "friend_list_fetches k w1 \<le> 1"
proof -
  note c = get_user_data_counts[OF g]
  have z: "profile_fetches k w = 0" "friend_list_fetches k w = 0"
    using inv nv unfolding each_user_once_def
    by (metis le_zero_eq)+
  have same: "profile_fetches j (w\<lparr>visited := insert k (visited w)\<rparr>) = profile_fetches j w"
     "friend_list_fetches j (w\<lparr>visited := insert k (visited w)\<rparr>) = friend_list_fetches j w" for j
    by (simp_all add: profile_fetches_def friend_list_fetches_def)
  show v: "visited w1 = insert k (visited w)" using c(1) by simp
  show "friend_list_fetches k w1 \<le> 1"
    using c(3)[of k] k z same by simp
  show "each_user_once w1"
    unfolding each_user_once_def
  proof (intro allI conjI)
    fix j
    have invj: "profile_fetches j w \<le> (if j \<in> visited w then 1 else 0)"
      "friend_list_fetches j w \<le> (if j \<in> visited w then 2 else 0)"
      using inv unfolding each_user_once_def by blast+
    show "profile_fetches j w1 \<le> (if j \<in> visited w1 then 1 else 0)"
      using c(2)[of j] same(1)[of j] k z invj(1) unfolding v
      by (cases "j = k") (auto split: if_splits)
    show "friend_list_fetches j w1 \<le> (if j \<in> visited w1 then 2 else 0)"
      using c(3)[of j] same(2)[of j] k z invj(2) unfolding v
      by (cases "j = k") (auto split: if_splits)
  qed
qed

lemma expansion_keeps_each_user_once:
  assumes inv: "each_user_once w1" and k: "key_of user_id = Some k" and v: "k \<in> visited w1"
      and one: "friend_list_fetches k w1 \<le> 1"
      and a: "api net ''friends.get'' token (friends_get_params user_id fl) w1 = (r, w2)"
  shows "each_user_once w2" and "visited w2 = visited w1"
proof -
  note c = api_friends_counts[OF a]
  show "visited w2 = visited w1" by (rule c(1))
  show "each_user_once w2"
    unfolding each_user_once_def c(1) c(2)
  proof (intro allI conjI)
    fix j
    have invj: "profile_fetches j w1 \<le> (if j \<in> visited w1 then 1 else 0)"
      "friend_list_fetches j w1 \<le> (if j \<in> visited w1 then 2 else 0)"
      using inv unfolding each_user_once_def by blast+
    show "profile_fetches j w1 \<le> (if j \<in> visited w1 then 1 else 0)"
      by (rule invj(1))
    show "friend_list_fetches j w2 \<le> (if j \<in> visited w1 then 2 else 0)"
      using c(3)[of j] k v one invj(2)
      by (cases "j = k") (auto split: if_splits)
  qed
qed

lemma crawl_keeps_each_user_once:
  "get_detailed_data net token service_token user_id depth_limit current_depth friends_limit
       subscriptions_limit w = Some (Inr w') \<Longrightarrow> each_user_once w \<Longrightarrow>
     each_user_once w' \<and> visited w \<subseteq> visited w'"
  "recurse_friends net token service_token fs depth_limit current_depth friends_limit
       subscriptions_limit w = Some w'' \<Longrightarrow> each_user_once w \<Longrightarrow>
     each_user_once w'' \<and> visited w \<subseteq> visited w''"
proof (induction net token service_token user_id depth_limit current_depth friends_limit
         subscriptions_limit w
       and net token service_token fs depth_limit current_depth friends_limit
         subscriptions_limit w
       arbitrary: w' and w'' rule: get_detailed_data_recurse_friends.induct)
  case (1 net token service_token user_id depth_limit current_depth friends_limit
          subscriptions_limit w)
  note run = "1.prems"(1) and inv = "1.prems"(2)
  obtain k where k: "key_of user_id = Some k"
    using run by (cases "key_of user_id") (simp_all add: get_detailed_data.simps)
  show ?case
  proof (cases "k \<in> visited w")
    case True
    then have "w' = w" using run k by (simp add: get_detailed_data.simps)
    then show ?thesis using inv by simp
  next
    case False
    obtain w1 where g: "get_user_data net token service_token user_id friends_limit
                subscriptions_limit (w\<lparr>visited := insert k (visited w)\<rparr>) = Some w1"
      using run k False by (auto simp: get_detailed_data.simps split: option.splits)
    note s1 = visit_keeps_each_user_once[OF inv k False g]
    have run1: "(if current_depth < depth_limit
                 then expand_friends net token service_token user_id depth_limit current_depth
                        friends_limit subscriptions_limit w1
                 else Some (Inr w1)) = Some (Inr w')"
      using run k False g by (simp add: get_detailed_data_unfold)
    show ?thesis
    proof (cases "current_depth < depth_limit")
      case False
      then have "w' = w1" using run1 by simp
      then show ?thesis using s1 by auto
    next
      case deep: True
      obtain r w2 where a: "api net ''friends.get'' token
                              (friends_get_params user_id friends_limit) w1 = (r, w2)"
        by (cases "api net ''friends.get'' token (friends_get_params user_id friends_limit) w1")
      have kv: "k \<in> visited w1" using s1(2) by simp
      note s2 = expansion_keeps_each_user_once[OF s1(1) k kv s1(3) a]
      have sub2: "visited w \<subseteq> visited w2" using s1(2) s2(2) by auto
      have ex: "expand_friends net token service_token user_id depth_limit current_depth
                        friends_limit subscriptions_limit w1 = Some (Inr w')"
        using run1 deep by simp
      show ?thesis
      proof (cases "\<exists>d fs. r = Inr (JObj d) \<and> py_iter (dict_get d ''items'' (JList [])) = Inr fs")
        case False
        then have "w' = w2"
          using ex a by (auto simp: expand_friends_def split: sum.splits json.splits)
        then show ?thesis using s2 sub2 by simp
      next
        case True
        then obtain d fs where r: "r = Inr (JObj d)"
          and it: "py_iter (dict_get d ''items'' (JList [])) = Inr fs"
          by blast
        have rf: "recurse_friends net token service_token fs depth_limit current_depth
                    friends_limit subscriptions_limit w2 = Some w'"
          using ex a r it by (auto simp: expand_friends_def split: option.splits)
        have "each_user_once w' \<and> visited w2 \<subseteq> visited w'"
          by (rule "1.IH"[OF k False g deep a[symmetric] r refl it rf s2(1)])
        then show ?thesis using sub2 by auto
      qed
    qed
  qed
next
  case (2 net token service_token depth_limit current_depth friends_limit subscriptions_limit w)
  then show ?case by simp
next
  case (3 net token service_token friend rest depth_limit current_depth friends_limit
          subscriptions_limit w)
  note run = "3.prems"(1) and inv = "3.prems"(2)
  show ?case
  proof (cases "process_profile friend")
    case (Inl e)
    then have "w'' = w" using run by simp
    then show ?thesis using inv by simp
  next
    case (Inr fp)
    show ?thesis
    proof (cases "truthy (is_private fp)")
      case True
      then have "recurse_friends net token service_token rest depth_limit current_depth
                   friends_limit subscriptions_limit w = Some w''"
        using run Inr by simp
      from "3.IH"(3)[OF Inr _ this inv] True show ?thesis by simp
    next
      case False
      obtain x where c: "get_detailed_data net token service_token (uid fp) depth_limit
              (current_depth + 1) friends_limit subscriptions_limit w = Some x"
        using run Inr False by (auto split: option.splits)
      show ?thesis
      proof (cases x)
        case (Inl e)
        then have "w'' = w" using run Inr False c by simp
        then show ?thesis using inv by simp
      next
        case x: (Inr w1)
        have s: "each_user_once w1 \<and> visited w \<subseteq> visited w1"
          by (rule "3.IH"(1)[OF Inr False c[unfolded x] inv])
        have rf: "recurse_friends net token service_token rest depth_limit current_depth
                   friends_limit subscriptions_limit w1 = Some w''"
          using run Inr False c x by simp
        have "each_user_once w'' \<and> visited w1 \<subseteq> visited w''"
          using "3.IH"(2)[OF Inr False c x rf] s by simp
        then show ?thesis using s by auto
      qed
    qed
  qed
qed

lemma each_user_once_world0: "each_user_once world0"
  by (simp add: each_user_once_def world0_def profile_fetches_def friend_list_fetches_def)

text \<open>
  From a state in which no member of the visited set was handled twice (the start of a run
  is one), a run of \<^verbatim>\<open>get_detailed_data\<close> that returns leaves such a state again, with a
  visited set that contains the one it started with. So the set never loses a member, and
  for every member of the set the profile is requested at most once (\<^verbatim>\<open>get_user_data\<close> runs
  at most once for it, right after the one time it is added to the set) and the friend
  list at most twice, once by \<^verbatim>\<open>get_user_data\<close> to store the friends and once by
  \<^verbatim>\<open>get_detailed_data\<close> to recurse into them. This is per member of the Python set, not per
  account.
\<close>

lemma members_are_handled_once:
  assumes "get_detailed_data net token service_token user_id depth_limit current_depth
             friends_limit subscriptions_limit w = Some (Inr w')"
      and "each_user_once w"
  shows "visited w \<subseteq> visited w' \<and> each_user_once w'
       \<and> (\<forall>k. profile_fetches k w' \<le> 1 \<and> friend_list_fetches k w' \<le> 2)"
proof -
  have a: "each_user_once w' \<and> visited w \<subseteq> visited w'"
    using crawl_keeps_each_user_once(1)[OF assms] .
  have "profile_fetches k w' \<le> 1 \<and> friend_list_fetches k w' \<le> 2" for k
  proof -
    have "profile_fetches k w' \<le> (if k \<in> visited w' then 1 else 0)"
      "friend_list_fetches k w' \<le> (if k \<in> visited w' then 2 else 0)"
      using a unfolding each_user_once_def by blast+
    then show ?thesis by (auto split: if_splits)
  qed
  then show ?thesis using a by blast
qed

text \<open>
  C5. The accounts 1 and 2 are friends of each other; the run is started as \<^verbatim>\<open>main\<close> starts
  it, with the id typed at the prompt, which is the string \<^verbatim>\<open>'1'\<close> (line 394), and with the
  default \<^verbatim>\<open>depth_limit = 3\<close>. The friend lists carry numbers, and in the visited set the
  string \<^verbatim>\<open>'1'\<close> and the number \<open>1\<close> are two members: when the crawl of account 2 comes to
  its friend 1, the membership test of line 284 does not find it. The profile of account 1
  is requested a second time and the account is handled by \<^verbatim>\<open>get_user_data\<close> a second
  time: its node is written with its counts twice (and once more as a friend of 2), where
  the claim has each user fetched once, also on a friendship cycle.
\<close>

theorem root_account_is_fetched_twice:
  "map_option visited
     (final_world (get_detailed_data (social_server mutual_pair) ''t'' ''s'' (JStr ''1'')
                     3 1 100 300 world0))
     = Some {KStr ''1'', KInt 2, KInt 1}
   \<and> map_option requested_profiles
       (final_world (get_detailed_data (social_server mutual_pair) ''t'' ''s'' (JStr ''1'')
                       3 1 100 300 world0))
     = Some [Some (JStr ''1''), Some (JInt 2), Some (JInt 1)]
   \<and> map_option fetched_accounts
       (final_world (get_detailed_data (social_server mutual_pair) ''t'' ''s'' (JStr ''1'')
                       3 1 100 300 world0))
     = Some [1, 2, 1]
   \<and> map_option (count_writes (JInt 1))
       (final_world (get_detailed_data (social_server mutual_pair) ''t'' ''s'' (JStr ''1'')
                       3 1 100 300 world0))
     = Some [Some (JInt 0), None, Some (JInt 0)]"
  by code_simp

end
